theory Spec2Isabelle
  imports Main "HOL-Library.AList"
begin

section \<open>JavaScript string primitives used by the authentication module\<close>

text \<open>
  Strings are byte strings (\<open>string\<close>). A value of type \<open>string | undefined\<close> is a
  \<open>string option\<close>; JavaScript truthiness of such a value (\<^verbatim>\<open>if (x)\<close>, \<^verbatim>\<open>!x\<close>) is
  \<open>truthyOpt\<close>: neither \<^verbatim>\<open>undefined\<close> nor the empty string.
\<close>

definition truthy :: "string \<Rightarrow> bool" where
  "truthy s \<longleftrightarrow> s \<noteq> []"

fun truthyOpt :: "string option \<Rightarrow> bool" where
  "truthyOpt None = False"
| "truthyOpt (Some s) = truthy s"

definition startsWith :: "string \<Rightarrow> string \<Rightarrow> bool" where
  "startsWith s p \<longleftrightarrow> take (length p) s = p"

text \<open>\<^verbatim>\<open>x?.startsWith(p)\<close> used as a condition: \<^verbatim>\<open>undefined\<close> is falsy.\<close>

fun hasPrefix :: "string option \<Rightarrow> string \<Rightarrow> bool" where
  "hasPrefix None p = False"
| "hasPrefix (Some s) p = startsWith s p"

fun strOf :: "string option \<Rightarrow> string" where
  "strOf None = []"
| "strOf (Some s) = s"

text \<open>\<^verbatim>\<open>s.replace(pat, rep)\<close> with a string pattern replaces the first occurrence only.\<close>

fun replaceFirst :: "string \<Rightarrow> string \<Rightarrow> string \<Rightarrow> string" where
  "replaceFirst [] pat rep = (if pat = [] then rep else [])"
| "replaceFirst (c # cs) pat rep =
     (if take (length pat) (c # cs) = pat then rep @ drop (length pat) (c # cs)
      else c # replaceFirst cs pat rep)"

text \<open>\<^verbatim>\<open>s.indexOf(c)\<close>: the index of the first occurrence, \<open>-1\<close> when there is none.\<close>

fun indexOf :: "string \<Rightarrow> char \<Rightarrow> int" where
  "indexOf [] c = - 1"
| "indexOf (x # xs) c =
     (if x = c then 0 else (let i = indexOf xs c in if i = - 1 then - 1 else i + 1))"

text \<open>\<^verbatim>\<open>s.substring(a, b)\<close> clamps both indices to \<open>[0, length]\<close> and swaps them when
  \<open>a > b\<close>; \<^verbatim>\<open>s.substring(a)\<close> runs to the end of the string.\<close>

definition substring :: "string \<Rightarrow> int \<Rightarrow> int \<Rightarrow> string" where
  "substring s a b =
     (let n = int (length s);
          a' = max 0 (min a n);
          b' = max 0 (min b n);
          lo = min a' b';
          hi = max a' b'
      in take (nat (hi - lo)) (drop (nat lo) s))"

definition substringFrom :: "string \<Rightarrow> int \<Rightarrow> string" where
  "substringFrom s a = substring s a (int (length s))"

text \<open>\<^verbatim>\<open>s.trim()\<close> on a header value (one byte per character): the white space and line
  terminators of JavaScript below U+0100.\<close>

definition isSpace :: "char \<Rightarrow> bool" where
  "isSpace c \<longleftrightarrow> (of_char c :: nat) \<in> {9, 10, 11, 12, 13, 32, 160}"

definition trim :: "string \<Rightarrow> string" where
  "trim s = rev (dropWhile isSpace (rev (dropWhile isSpace s)))"

subsection \<open>The runtime's base64 decoder\<close>

text \<open>
  \<^verbatim>\<open>Buffer.from(s, 'base64').toString('ascii')\<close> belongs to the runtime, not to the
  repository, so the parser below takes the decoder as a parameter and every theorem about
  it holds for any decoder. \<open>decodeBase64Ascii\<close> is a concrete decoder for evaluating
  examples: it skips characters outside the (standard or URL-safe) alphabet, stops at the
  padding character, and clears the high bit of every byte as the \<^verbatim>\<open>'ascii'\<close> encoding does.
\<close>

definition b64val :: "char \<Rightarrow> nat option" where
  "b64val c =
     (let n = (of_char c :: nat) in
      if 65 \<le> n \<and> n \<le> 90 then Some (n - 65)
      else if 97 \<le> n \<and> n \<le> 122 then Some (n - 71)
      else if 48 \<le> n \<and> n \<le> 57 then Some (n + 4)
      else if n = 43 \<or> n = 45 then Some 62
      else if n = 47 \<or> n = 95 then Some 63
      else None)"

fun b64sextets :: "string \<Rightarrow> nat list" where
  "b64sextets [] = []"
| "b64sextets (c # cs) =
     (if c = CHR ''='' then []
      else case b64val c of None \<Rightarrow> b64sextets cs | Some v \<Rightarrow> v # b64sextets cs)"

fun b64bytes :: "nat list \<Rightarrow> nat list" where
  "b64bytes (a # b # c # d # rest) =
     (a * 4 + b div 16) # ((b mod 16) * 16 + c div 4) # ((c mod 4) * 64 + d) # b64bytes rest"
| "b64bytes [a, b, c] = [a * 4 + b div 16, (b mod 16) * 16 + c div 4]"
| "b64bytes [a, b] = [a * 4 + b div 16]"
| "b64bytes _ = []"

definition decodeBase64Ascii :: "string \<Rightarrow> string" where
  "decodeBase64Ascii s = map (\<lambda>b. char_of (b mod 128)) (b64bytes (b64sextets s))"

section \<open>Errors, configuration and data model\<close>

text \<open>Every \<^verbatim>\<open>throw new Error(...)\<close> of the module is a constructor; \<open>UpstreamError\<close> is
  whatever the Sunsama client's \<^verbatim>\<open>login\<close> or \<^verbatim>\<open>logout\<close> throws.\<close>

datatype error =
    InvalidBasicAuthFormat
  | InvalidBearerTokenFormat
  | TokenNotConfigured
  | InvalidAuthenticationToken
  | ServerCredentialsMissing
  | AuthenticationRequired
  | BasicAuthRequired
  | UpstreamError string

type_synonym key = string
type_synonym client = nat
type_synonym ref = nat
type_synonym pid = nat

text \<open>
  The process environment and the collaborators the module consumes:
  \<^verbatim>\<open>getMcpAuthToken()\<close>, \<^verbatim>\<open>process.env.SUNSAMA_EMAIL\<close>, \<^verbatim>\<open>process.env.SUNSAMA_PASSWORD\<close>,
  \<^verbatim>\<open>process.env.MCP_API_KEY\<close>, the two timeouts of \<^verbatim>\<open>getSessionConfig()\<close> (milliseconds),
  \<^verbatim>\<open>createHash('sha256').update(s).digest('hex')\<close>, the base64 decoder, and whether the
  \<^verbatim>\<open>logout\<close> of a given client object throws.
\<close>

record env =
  MCP_AUTH_TOKEN :: "string option"
  SUNSAMA_EMAIL :: "string option"
  SUNSAMA_PASSWORD :: "string option"
  MCP_API_KEY :: "string option"
  CLIENT_IDLE_TIMEOUT :: int
  CLIENT_MAX_LIFETIME :: int
  sha256_hex :: "string \<Rightarrow> string"
  base64_ascii :: "string \<Rightarrow> string"
  logout_throws :: "client \<Rightarrow> error option"

datatype AuthMethod = Basic | Bearer | Query

record SessionData =
  sunsamaClient :: client
  email :: string
  createdAt :: int
  lastAccessedAt :: int
  authMethod :: "AuthMethod option"

section \<open>Credential parsing, token validation and cache keys\<close>

text \<open>\<^verbatim>\<open>parseBasicAuth\<close>. The test \<^verbatim>\<open>password === undefined\<close> can never hold for the result
  of \<^verbatim>\<open>substring\<close>, so only \<^verbatim>\<open>!email\<close> remains of the second check.\<close>

definition parseBasicAuth :: "(string \<Rightarrow> string) \<Rightarrow> string \<Rightarrow> error + (string \<times> string)" where
  "parseBasicAuth decode authHeader =
     (let base64Credentials = replaceFirst authHeader ''Basic '' [];
          credentials = decode base64Credentials;
          colonIndex = indexOf credentials CHR '':''
      in if colonIndex = - 1 then Inl InvalidBasicAuthFormat
         else let em = substring credentials 0 colonIndex;
                  pw = substringFrom credentials (colonIndex + 1)
              in if \<not> truthy em then Inl InvalidBasicAuthFormat else Inr (em, pw))"

definition parseBearerToken :: "string \<Rightarrow> error + string" where
  "parseBearerToken authHeader =
     (let token = replaceFirst authHeader ''Bearer '' []
      in if \<not> truthy token then Inl InvalidBearerTokenFormat else Inr token)"

text \<open>\<^verbatim>\<open>crypto.timingSafeEqual\<close> on two buffers of equal length.\<close>

definition timingSafeEqual :: "string \<Rightarrow> string \<Rightarrow> bool" where
  "timingSafeEqual a b \<longleftrightarrow> a = b"

definition validateToken :: "string \<Rightarrow> string \<Rightarrow> bool" where
  "validateToken providedToken expectedToken =
     (if \<not> truthy providedToken \<or> \<not> truthy expectedToken then False
      else if length providedToken \<noteq> length expectedToken
        then (let dummy = timingSafeEqual expectedToken expectedToken in False)
      else timingSafeEqual providedToken expectedToken)"

text \<open>The strings fed to the hash, and the two key functions.\<close>

definition cacheKeyInput :: "string \<Rightarrow> string \<Rightarrow> string" where
  "cacheKeyInput em pw = em @ '':'' @ pw"

definition tokenCacheKeyInput :: "string \<Rightarrow> string" where
  "tokenCacheKeyInput token = ''token:'' @ token"

definition getCacheKey :: "env \<Rightarrow> string \<Rightarrow> string \<Rightarrow> key" where
  "getCacheKey env em pw = sha256_hex env (cacheKeyInput em pw)"

definition getTokenCacheKey :: "env \<Rightarrow> string \<Rightarrow> key" where
  "getTokenCacheKey env token = sha256_hex env (tokenCacheKeyInput token)"

section \<open>Module state\<close>

text \<open>
  The module keeps two \<^verbatim>\<open>Map\<close>s: \<^verbatim>\<open>clientCache\<close> (key to \<^verbatim>\<open>SessionData\<close> object) and
  \<^verbatim>\<open>authPromises\<close> (key to promise). A JavaScript \<^verbatim>\<open>Map\<close> is insertion-ordered;
  \<^verbatim>\<open>set\<close> overwrites in place or appends, \<^verbatim>\<open>delete\<close> removes: an association list under
  \<open>AList.update\<close>, \<open>AList.delete\<close> and \<open>map_of\<close>.

  \<^verbatim>\<open>SessionData\<close> values are objects that the code mutates through references
  (\<^verbatim>\<open>cached.lastAccessedAt = now\<close>), so the cache holds references into an explicit store
  \<open>heap\<close>. A promise returned by the asynchronous login block is \<open>Pending\<close>, with the
  variables its continuation has captured, until the login settles.

  \<open>trace\<close> records, in program order, the calls made on Sunsama clients and the removals
  from the client cache.
\<close>

record closure =
  c_cacheKey :: key
  c_client :: client
  c_email :: string
  c_now :: int
  c_authMethod :: AuthMethod

datatype promise = Pending closure | Fulfilled ref | Rejected error

datatype effect = Login client string string | Logout client | CacheDelete key | CacheClear

record state =
  clientCache :: "(key \<times> ref) list"
  authPromises :: "(key \<times> pid) list"
  heap :: "ref \<Rightarrow> SessionData"
  promises :: "pid \<Rightarrow> promise option"
  clients :: nat
  objects :: nat
  next_pid :: nat
  trace :: "effect list"

definition init_state :: state where
  "init_state =
     \<lparr>clientCache = [], authPromises = [],
      heap = (\<lambda>r. \<lparr>sunsamaClient = 0, email = [], createdAt = 0, lastAccessedAt = 0,
                    authMethod = None\<rparr>),
      promises = (\<lambda>p. None), clients = 0, objects = 0, next_pid = 0, trace = []\<rparr>"

text \<open>How an \<^verbatim>\<open>async\<close> call ends its synchronous part: it has returned a \<^verbatim>\<open>SessionData\<close>
  object, it has thrown, or its result is the result of a promise still pending.\<close>

datatype outcome = Returned ref | Threw error | Awaiting pid

section \<open>Client cache: validity, expiry sweep, shutdown\<close>

text \<open>\<^verbatim>\<open>isClientValid\<close> reads the clock itself: \<open>now\<close> is the reading of \<^verbatim>\<open>Date.now()\<close> it
  takes. Its callers pass it no time, so every call of it has a reading of its own, apart
  from whatever reading the caller has taken for its own use.\<close>

definition isClientValid :: "env \<Rightarrow> int \<Rightarrow> SessionData \<Rightarrow> bool" where
  "isClientValid env now sessionData =
     (let idleTime = now - lastAccessedAt sessionData;
          lifetime = now - createdAt sessionData
      in idleTime < CLIENT_IDLE_TIMEOUT env \<and> lifetime < CLIENT_MAX_LIFETIME env)"

text \<open>\<^verbatim>\<open>sunsamaClient.logout()\<close>: the call is made, and throws when the client says so.\<close>

definition logout :: "env \<Rightarrow> client \<Rightarrow> state \<Rightarrow> (error + unit) \<times> state" where
  "logout env c st =
     (case logout_throws env c of
        Some err \<Rightarrow> (Inl err, st\<lparr>trace := trace st @ [Logout c]\<rparr>)
      | None \<Rightarrow> (Inr (), st\<lparr>trace := trace st @ [Logout c]\<rparr>))"

text \<open>\<^verbatim>\<open>try { client.logout(); } catch (err) { console.error(...) }\<close>\<close>

definition tryLogout :: "env \<Rightarrow> client \<Rightarrow> state \<Rightarrow> (error + unit) \<times> state" where
  "tryLogout env c st =
     (case logout env c st of
        (Inl err, st') \<Rightarrow> (Inr (), st')
      | (Inr u, st') \<Rightarrow> (Inr u, st'))"

definition cacheDelete :: "key \<Rightarrow> state \<Rightarrow> state" where
  "cacheDelete cacheKey st =
     st\<lparr>clientCache := AList.delete cacheKey (clientCache st),
        trace := trace st @ [CacheDelete cacheKey]\<rparr>"

text \<open>The loop of \<^verbatim>\<open>cleanupExpiredClients\<close> over \<^verbatim>\<open>clientCache.entries()\<close>. Deleting the
  entry under the iterator does not disturb the iteration, so the loop visits the entries
  the map had when it started. \<open>clock i\<close> is the reading \<^verbatim>\<open>isClientValid\<close> takes for the
  entry the loop visits as its \<open>i\<close>-th, counted from 0.\<close>

fun expireEntries :: "env \<Rightarrow> (nat \<Rightarrow> int) \<Rightarrow> nat \<Rightarrow> (key \<times> ref) list \<Rightarrow> state \<Rightarrow> (error + unit) \<times> state" where
  "expireEntries env clock i [] st = (Inr (), st)"
| "expireEntries env clock i ((cacheKey, r) # rest) st =
     (if \<not> isClientValid env (clock i) (heap st r) then
        (case tryLogout env (sunsamaClient (heap st r)) st of
           (Inl err, st1) \<Rightarrow> (Inl err, st1)
         | (Inr u, st1) \<Rightarrow> expireEntries env clock (Suc i) rest (cacheDelete cacheKey st1))
      else expireEntries env clock (Suc i) rest st)"

text \<open>\<^verbatim>\<open>cleanupExpiredClients\<close> begins with \<^verbatim>\<open>const now = Date.now()\<close> and never uses it.\<close>

definition cleanupExpiredClients :: "env \<Rightarrow> int \<Rightarrow> (nat \<Rightarrow> int) \<Rightarrow> state \<Rightarrow> (error + unit) \<times> state" where
  "cleanupExpiredClients env now clock st = expireEntries env clock 0 (clientCache st) st"

fun logoutEntries :: "env \<Rightarrow> (key \<times> ref) list \<Rightarrow> state \<Rightarrow> (error + unit) \<times> state" where
  "logoutEntries env [] st = (Inr (), st)"
| "logoutEntries env ((cacheKey, r) # rest) st =
     (case tryLogout env (sunsamaClient (heap st r)) st of
        (Inl err, st1) \<Rightarrow> (Inl err, st1)
      | (Inr u, st1) \<Rightarrow> logoutEntries env rest st1)"

definition cleanupAllClients :: "env \<Rightarrow> state \<Rightarrow> (error + unit) \<times> state" where
  "cleanupAllClients env st =
     (case logoutEntries env (clientCache st) st of
        (Inl err, st1) \<Rightarrow> (Inl err, st1)
      | (Inr u, st1) \<Rightarrow> (Inr (), st1\<lparr>clientCache := [], trace := trace st1 @ [CacheClear]\<rparr>))"

section \<open>Single-flight authentication\<close>

text \<open>
  Both \<^verbatim>\<open>authenticateWithToken\<close> and \<^verbatim>\<open>authenticateHttpRequest\<close> end in the same three
  blocks, which differ in their log messages and in the \<^verbatim>\<open>authMethod\<close> they store only.

  \<open>checkCache\<close> is the block under the comment \<^verbatim>\<open>// Check cache first\<close>: a valid
  cached object is touched and returned; an expired one is logged out and deleted, and the
  caller goes on as on a miss. Two readings of the clock are involved: \<open>now\<close> is the
  caller's \<^verbatim>\<open>const now = Date.now()\<close>, taken before the pending map is consulted, and is
  what the touch stores; \<open>checkNow\<close> is the reading \<^verbatim>\<open>isClientValid\<close> takes afterwards.
\<close>

definition checkCache :: "env \<Rightarrow> int \<Rightarrow> int \<Rightarrow> key \<Rightarrow> AuthMethod \<Rightarrow> state \<Rightarrow> (error + ref option) \<times> state" where
  "checkCache env now checkNow cacheKey meth st =
     (case map_of (clientCache st) cacheKey of
        None \<Rightarrow> (Inr None, st)
      | Some cached \<Rightarrow>
          if isClientValid env checkNow (heap st cached) then
            (Inr (Some cached),
             st\<lparr>heap := (heap st)(cached := (heap st cached)\<lparr>lastAccessedAt := now,
                                                              authMethod := Some meth\<rparr>)\<rparr>)
          else
            (case tryLogout env (sunsamaClient (heap st cached)) st of
               (Inl err, st1) \<Rightarrow> (Inl err, st1)
             | (Inr u, st1) \<Rightarrow> (Inr None, cacheDelete cacheKey st1)))"

text \<open>
  \<open>startLogin\<close> is the block that builds \<^verbatim>\<open>authPromise\<close>. The \<^verbatim>\<open>async\<close> arrow function
  runs synchronously up to its \<^verbatim>\<open>await\<close>: it constructs a \<^verbatim>\<open>SunsamaClient\<close> and calls its
  asynchronous \<^verbatim>\<open>login\<close>. Then the caller stores the promise in \<^verbatim>\<open>authPromises\<close> and
  returns it.
\<close>

definition startLogin :: "key \<Rightarrow> string \<Rightarrow> string \<Rightarrow> int \<Rightarrow> AuthMethod \<Rightarrow> state \<Rightarrow> outcome \<times> state" where
  "startLogin cacheKey em pw now meth st =
     (let c = clients st;
          p = next_pid st;
          cl = \<lparr>c_cacheKey = cacheKey, c_client = c, c_email = em, c_now = now,
                c_authMethod = meth\<rparr>
      in (Awaiting p,
          st\<lparr>clients := c + 1,
             next_pid := p + 1,
             promises := (promises st)(p \<mapsto> Pending cl),
             authPromises := AList.update cacheKey p (authPromises st),
             trace := trace st @ [Login c em pw]\<rparr>))"

text \<open>
  \<open>loginSettled\<close> is the rest of the arrow function, run when the login the promise \<open>p\<close>
  waits for settles (\<open>None\<close>: it resolved; \<open>Some err\<close>: it threw). On success the
  \<^verbatim>\<open>SessionData\<close> object is created with the \<open>now\<close> read before the login started and is
  cached; the \<^verbatim>\<open>finally\<close> block deletes the pending entry in both cases. A promise that
  is not pending has no continuation left to run.
\<close>

definition loginSettled :: "pid \<Rightarrow> error option \<Rightarrow> state \<Rightarrow> state" where
  "loginSettled p failure st =
     (case promises st p of
        Some (Pending cl) \<Rightarrow>
          (case failure of
             None \<Rightarrow>
               (let r = objects st;
                    sessionData = \<lparr>sunsamaClient = c_client cl, email = c_email cl,
                                   createdAt = c_now cl, lastAccessedAt = c_now cl,
                                   authMethod = Some (c_authMethod cl)\<rparr>
                in st\<lparr>objects := r + 1,
                      heap := (heap st)(r := sessionData),
                      clientCache := AList.update (c_cacheKey cl) r (clientCache st),
                      authPromises := AList.delete (c_cacheKey cl) (authPromises st),
                      promises := (promises st)(p \<mapsto> Fulfilled r)\<rparr>)
           | Some err \<Rightarrow>
               st\<lparr>authPromises := AList.delete (c_cacheKey cl) (authPromises st),
                  promises := (promises st)(p \<mapsto> Rejected err)\<rparr>)
      | _ \<Rightarrow> st)"

definition authenticateWithToken :: "env \<Rightarrow> int \<Rightarrow> int \<Rightarrow> string \<Rightarrow> AuthMethod \<Rightarrow> state \<Rightarrow> outcome \<times> state" where
  "authenticateWithToken env now checkNow providedToken meth st =
     (let expectedToken = MCP_AUTH_TOKEN env in
      if \<not> truthyOpt expectedToken then (Threw TokenNotConfigured, st)
      else if \<not> validateToken providedToken (strOf expectedToken)
        then (Threw InvalidAuthenticationToken, st)
      else
        (let cacheKey = getTokenCacheKey env providedToken in
         case map_of (authPromises st) cacheKey of
           Some p \<Rightarrow> (Awaiting p, st)
         | None \<Rightarrow>
             (case checkCache env now checkNow cacheKey meth st of
                (Inl err, st1) \<Rightarrow> (Threw err, st1)
              | (Inr (Some cached), st1) \<Rightarrow> (Returned cached, st1)
              | (Inr None, st1) \<Rightarrow>
                  if \<not> truthyOpt (SUNSAMA_EMAIL env) \<or> \<not> truthyOpt (SUNSAMA_PASSWORD env)
                    then (Threw ServerCredentialsMissing, st1)
                  else startLogin cacheKey (strOf (SUNSAMA_EMAIL env))
                         (strOf (SUNSAMA_PASSWORD env)) now meth st1)))"

text \<open>
  \<^verbatim>\<open>authenticateHttpRequest\<close> in two parts. \<open>selectCredential\<close> is its head, down to the
  call of \<^verbatim>\<open>parseBasicAuth\<close>: it throws, or hands a token to \<^verbatim>\<open>authenticateWithToken\<close>, or
  falls through to Basic Auth with the parsed pair. \<open>authenticateBasic\<close> is its tail, from
  \<^verbatim>\<open>getCacheKey\<close> on.
\<close>

datatype credential = TokenCredential string AuthMethod | BasicCredential string string

definition basicAuthCredential :: "env \<Rightarrow> string option \<Rightarrow> error + credential" where
  "basicAuthCredential env authHeader =
     (if \<not> truthyOpt authHeader \<or> \<not> hasPrefix authHeader ''Basic '' then Inl BasicAuthRequired
      else case parseBasicAuth (base64_ascii env) (strOf authHeader) of
             Inl err \<Rightarrow> Inl err
           | Inr (em, pw) \<Rightarrow> Inr (BasicCredential em pw))"

definition selectCredential :: "env \<Rightarrow> string option \<Rightarrow> string option \<Rightarrow> error + credential" where
  "selectCredential env authHeader queryToken =
     (if truthyOpt (MCP_AUTH_TOKEN env) then
        (if truthyOpt queryToken then Inr (TokenCredential (strOf queryToken) Query)
         else if hasPrefix authHeader ''Bearer '' then
           (case parseBearerToken (strOf authHeader) of
              Inl err \<Rightarrow> Inl err
            | Inr token \<Rightarrow> Inr (TokenCredential token Bearer))
         else if hasPrefix authHeader ''Basic '' then basicAuthCredential env authHeader
         else if \<not> truthyOpt authHeader then Inl AuthenticationRequired
         else basicAuthCredential env authHeader)
      else basicAuthCredential env authHeader)"

definition authenticateBasic :: "env \<Rightarrow> int \<Rightarrow> int \<Rightarrow> string \<Rightarrow> string \<Rightarrow> state \<Rightarrow> outcome \<times> state" where
  "authenticateBasic env now checkNow em pw st =
     (let cacheKey = getCacheKey env em pw in
      case map_of (authPromises st) cacheKey of
        Some p \<Rightarrow> (Awaiting p, st)
      | None \<Rightarrow>
          (case checkCache env now checkNow cacheKey Basic st of
             (Inl err, st1) \<Rightarrow> (Threw err, st1)
           | (Inr (Some cached), st1) \<Rightarrow> (Returned cached, st1)
           | (Inr None, st1) \<Rightarrow> startLogin cacheKey em pw now Basic st1))"

definition authenticateHttpRequest :: "env \<Rightarrow> int \<Rightarrow> int \<Rightarrow> string option \<Rightarrow> string option \<Rightarrow> state \<Rightarrow> outcome \<times> state" where
  "authenticateHttpRequest env now checkNow authHeader queryToken st =
     (case selectCredential env authHeader queryToken of
        Inl err \<Rightarrow> (Threw err, st)
      | Inr (TokenCredential token meth) \<Rightarrow> authenticateWithToken env now checkNow token meth st
      | Inr (BasicCredential em pw) \<Rightarrow> authenticateBasic env now checkNow em pw st)"

section \<open>Session initialisation in the HTTP transport\<close>

text \<open>
  The \<^verbatim>\<open>// New initialize\<close> branch of the POST handler chooses the \<^verbatim>\<open>sessionData\<close> that
  \<^verbatim>\<open>sessionManager.createSession\<close> will store: a fixed record when the request carries the
  configured API key, the result of \<^verbatim>\<open>authenticateHttpRequest(authHeader)\<close> (no query
  token is passed) otherwise.
\<close>

datatype sessionOrigin = ApiKeyClient | Authenticated outcome

definition newSessionData :: "env \<Rightarrow> int \<Rightarrow> int \<Rightarrow> string option \<Rightarrow> string option \<Rightarrow> state \<Rightarrow> sessionOrigin \<times> state" where
  "newSessionData env now checkNow apiKeyHeaderRaw authHeader st =
     (let apiKeyHeader = map_option trim apiKeyHeaderRaw;
          expectedKey = MCP_API_KEY env
      in if truthyOpt expectedKey \<and> apiKeyHeader = expectedKey then (ApiKeyClient, st)
         else (case authenticateHttpRequest env now checkNow authHeader None st of
                 (res, st1) \<Rightarrow> (Authenticated res, st1)))"

text \<open>
  The POST handler down to \<^verbatim>\<open>transport.handleRequest\<close>. \<open>hasSession\<close> is the answer of
  \<^verbatim>\<open>sessionManager.hasSession(sessionId)\<close> and \<open>isInitialize\<close> that of
  \<^verbatim>\<open>isInitializeRequest(req.body)\<close>. An authentication that throws is caught and answered
  with status 401; \<open>NewSession (Authenticated (Awaiting p))\<close> is the handler suspended on the
  promise \<open>p\<close>, whose value becomes the session's data.
\<close>

datatype response =
    ReuseSession
  | SessionExpired404
  | BadRequest400
  | AuthenticationFailed401
  | NewSession sessionOrigin

definition handlePost :: "env \<Rightarrow> int \<Rightarrow> int \<Rightarrow> string option \<Rightarrow> bool \<Rightarrow> bool \<Rightarrow> string option \<Rightarrow> string option \<Rightarrow> state \<Rightarrow> response \<times> state" where
  "handlePost env now checkNow sessionId hasSession isInitialize apiKeyHeaderRaw authHeader st =
     (if truthyOpt sessionId \<and> hasSession then (ReuseSession, st)
      else if truthyOpt sessionId \<and> \<not> hasSession then (SessionExpired404, st)
      else if \<not> truthyOpt sessionId \<and> isInitialize then
        (case newSessionData env now checkNow apiKeyHeaderRaw authHeader st of
           (Authenticated (Threw err), st1) \<Rightarrow> (AuthenticationFailed401, st1)
         | (sessionData, st1) \<Rightarrow> (NewSession sessionData, st1))
      else (BadRequest400, st))"

section \<open>The module as a transition system\<close>

text \<open>
  JavaScript runs each of these to completion before the next begins: the synchronous part
  of an \<^verbatim>\<open>authenticateHttpRequest\<close> call, the continuation of a login that settles, a tick
  of the cleanup timer, and the shutdown handler. Concurrent requests are interleavings of
  such events. An \<open>Authenticate\<close> event carries the two clock readings of the call, a
  \<open>CleanupTick\<close> the unused reading the sweep begins with and the readings taken for its
  entries.
\<close>

datatype event =
    Authenticate int int "string option" "string option"
  | LoginSettles pid "error option"
  | CleanupTick int "nat \<Rightarrow> int"
  | Shutdown

fun step :: "env \<Rightarrow> state \<Rightarrow> event \<Rightarrow> state" where
  "step env st (Authenticate now checkNow authHeader queryToken) =
     snd (authenticateHttpRequest env now checkNow authHeader queryToken st)"
| "step env st (LoginSettles p failure) = loginSettled p failure st"
| "step env st (CleanupTick now clock) = snd (cleanupExpiredClients env now clock st)"
| "step env st Shutdown = snd (cleanupAllClients env st)"

definition run :: "env \<Rightarrow> state \<Rightarrow> event list \<Rightarrow> state" where
  "run env st evs = foldl (step env) st evs"

text \<open>A sequence of calls, each run to the end of its synchronous part, with no other
  event in between.\<close>

fun authenticateAll :: "env \<Rightarrow> (int \<times> int \<times> string option \<times> string option) list \<Rightarrow> state \<Rightarrow> outcome list \<times> state" where
  "authenticateAll env [] st = ([], st)"
| "authenticateAll env ((now, checkNow, authHeader, queryToken) # reqs) st =
     (case authenticateHttpRequest env now checkNow authHeader queryToken st of
        (res, st1) \<Rightarrow>
          (case authenticateAll env reqs st1 of (ress, st2) \<Rightarrow> (res # ress, st2)))"

section \<open>Vocabulary of the properties\<close>

text \<open>The key under which a selected credential is looked up, when the call gets that far
  (a token must first validate against the configured one); the method it records; and
  the pair its login is made with (for a token, the server's own Sunsama credentials).\<close>

fun cacheKeyOf :: "env \<Rightarrow> credential \<Rightarrow> key option" where
  "cacheKeyOf env (TokenCredential token meth) =
     (if truthyOpt (MCP_AUTH_TOKEN env) \<and> validateToken token (strOf (MCP_AUTH_TOKEN env))
      then Some (getTokenCacheKey env token) else None)"
| "cacheKeyOf env (BasicCredential em pw) = Some (getCacheKey env em pw)"

fun methodOf :: "credential \<Rightarrow> AuthMethod" where
  "methodOf (TokenCredential token meth) = meth"
| "methodOf (BasicCredential em pw) = Basic"

fun loginPair :: "env \<Rightarrow> credential \<Rightarrow> (string \<times> string) option" where
  "loginPair env (TokenCredential token meth) =
     (if truthyOpt (SUNSAMA_EMAIL env) \<and> truthyOpt (SUNSAMA_PASSWORD env)
      then Some (strOf (SUNSAMA_EMAIL env), strOf (SUNSAMA_PASSWORD env)) else None)"
| "loginPair env (BasicCredential em pw) = Some (em, pw)"

text \<open>The common tail of both authentication paths, once the key is known.\<close>

definition singleFlight :: "env \<Rightarrow> int \<Rightarrow> int \<Rightarrow> key \<Rightarrow> AuthMethod \<Rightarrow> (string \<times> string) option \<Rightarrow> state \<Rightarrow> outcome \<times> state" where
  "singleFlight env now checkNow cacheKey meth pair st =
     (case map_of (authPromises st) cacheKey of
        Some p \<Rightarrow> (Awaiting p, st)
      | None \<Rightarrow>
          (case checkCache env now checkNow cacheKey meth st of
             (Inl err, st1) \<Rightarrow> (Threw err, st1)
           | (Inr (Some cached), st1) \<Rightarrow> (Returned cached, st1)
           | (Inr None, st1) \<Rightarrow>
               (case pair of
                  None \<Rightarrow> (Threw ServerCredentialsMissing, st1)
                | Some (em, pw) \<Rightarrow> startLogin cacheKey em pw now meth st1)))"

definition requestKey :: "env \<Rightarrow> string option \<Rightarrow> string option \<Rightarrow> key option" where
  "requestKey env authHeader queryToken =
     (case selectCredential env authHeader queryToken of
        Inl err \<Rightarrow> None
      | Inr c \<Rightarrow> cacheKeyOf env c)"

definition requestLogin :: "env \<Rightarrow> string option \<Rightarrow> string option \<Rightarrow> (string \<times> string) option" where
  "requestLogin env authHeader queryToken =
     (case selectCredential env authHeader queryToken of
        Inl err \<Rightarrow> None
      | Inr c \<Rightarrow> loginPair env c)"

text \<open>The entries a sweep finds expired, each at the reading taken for it, and the calls
  and removals their teardown leaves in the trace.\<close>

fun expired :: "env \<Rightarrow> (nat \<Rightarrow> int) \<Rightarrow> nat \<Rightarrow> (ref \<Rightarrow> SessionData) \<Rightarrow> (key \<times> ref) list \<Rightarrow> (key \<times> ref) list" where
  "expired env clock i h [] = []"
| "expired env clock i h ((k, r) # es) =
     (if \<not> isClientValid env (clock i) (h r) then (k, r) # expired env clock (Suc i) h es
      else expired env clock (Suc i) h es)"

definition teardown :: "(ref \<Rightarrow> SessionData) \<Rightarrow> (key \<times> ref) list \<Rightarrow> effect list" where
  "teardown h es = concat (map (\<lambda>(k, r). [Logout (sunsamaClient (h r)), CacheDelete k]) es)"

fun isLogin :: "effect \<Rightarrow> bool" where
  "isLogin (Login c em pw) = True"
| "isLogin other = False"

definition logins :: "state \<Rightarrow> nat" where
  "logins st = length (filter isLogin (trace st))"

text \<open>
  Well-formedness of a state: both maps have unique keys, no two cache entries share a
  \<^verbatim>\<open>SessionData\<close> object, every cached object and every promise has been allocated, and
  the pending map lists exactly the logins in flight, each under its own key, and a key
  with a login in flight has no cache entry.
\<close>

definition wellFormed :: "state \<Rightarrow> bool" where
  "wellFormed st \<longleftrightarrow>
     distinct (map fst (clientCache st)) \<and>
     distinct (map snd (clientCache st)) \<and>
     (\<forall>r \<in> snd ` set (clientCache st). r < objects st) \<and>
     distinct (map fst (authPromises st)) \<and>
     (\<forall>(k, p) \<in> set (authPromises st). \<exists>cl. promises st p = Some (Pending cl) \<and> c_cacheKey cl = k) \<and>
     (\<forall>p cl. promises st p = Some (Pending cl) \<longrightarrow> (c_cacheKey cl, p) \<in> set (authPromises st)) \<and>
     (\<forall>p. promises st p \<noteq> None \<longrightarrow> p < next_pid st) \<and>
     (\<forall>k \<in> fst ` set (authPromises st). map_of (clientCache st) k = None)"

text \<open>Timestamps up to time \<open>t\<close>: every cached entry was created no later than it was last
  accessed and no later than \<open>t\<close>, and every login in flight started no later than \<open>t\<close>.\<close>

definition timestampsOk :: "int \<Rightarrow> state \<Rightarrow> bool" where
  "timestampsOk t st \<longleftrightarrow>
     (\<forall>r \<in> snd ` set (clientCache st).
        createdAt (heap st r) \<le> lastAccessedAt (heap st r) \<and> createdAt (heap st r) \<le> t) \<and>
     (\<forall>p cl. promises st p = Some (Pending cl) \<longrightarrow> c_now cl \<le> t)"

text \<open>A monotone clock: the first readings of the events never go back, starting from
  \<open>t\<close>. Nothing is asked of the further readings an event takes.\<close>

fun monotone :: "int \<Rightarrow> event list \<Rightarrow> bool" where
  "monotone t [] = True"
| "monotone t (Authenticate now checkNow authHeader queryToken # evs) =
     (t \<le> now \<and> monotone now evs)"
| "monotone t (CleanupTick now clock # evs) = (t \<le> now \<and> monotone now evs)"
| "monotone t (ev # evs) = monotone t evs"

section \<open>Example configurations\<close>

text \<open>
  Three servers for evaluating the model on concrete requests: one without a shared
  secret, one with the shared secret \<^verbatim>\<open>T1\<close> and its own Sunsama credentials, and one with an
  API key. The idle timeout is 100 ms and the maximal lifetime 150 ms; the identity
  stands in for the hash, and the logout of client 0 throws.
\<close>

definition basicEnv :: env where
  "basicEnv =
     \<lparr>MCP_AUTH_TOKEN = None, SUNSAMA_EMAIL = None, SUNSAMA_PASSWORD = None,
      MCP_API_KEY = None, CLIENT_IDLE_TIMEOUT = 100, CLIENT_MAX_LIFETIME = 150,
      sha256_hex = (\<lambda>s. s), base64_ascii = decodeBase64Ascii,
      logout_throws = (\<lambda>c. if c = 0 then Some (UpstreamError ''logout failed'') else None)\<rparr>"

definition tokenEnv :: env where
  "tokenEnv =
     basicEnv\<lparr>MCP_AUTH_TOKEN := Some ''T1'', SUNSAMA_EMAIL := Some ''me@example.org'',
              SUNSAMA_PASSWORD := Some ''secret''\<rparr>"

definition apiKeyEnv :: env where
  "apiKeyEnv = basicEnv\<lparr>MCP_API_KEY := Some ''K1''\<rparr>"

text \<open>
  A run of the token server: a first request with the query token, whose login succeeds,
  then a first request with the Basic credentials \<^verbatim>\<open>user:pw\<close>, whose login succeeds. In
  \<open>touchedState\<close> the token is presented once more, 90 ms after its entry was created.
\<close>

text \<open>A clock that ticks during a sweep: 99 for the first entry, 110 from the second on;
  and a clock that stands still.\<close>

definition tickingClock :: "nat \<Rightarrow> int" where
  "tickingClock i = (if i = 0 then 99 else 110)"

definition still :: "int \<Rightarrow> nat \<Rightarrow> int" where
  "still t i = t"

definition exampleEvents :: "event list" where
  "exampleEvents =
     [Authenticate 0 0 None (Some ''T1''), LoginSettles 0 None,
      Authenticate 10 10 (Some ''Basic dXNlcjpwdw=='') None, LoginSettles 1 None]"

definition cachedState :: state where
  "cachedState = run tokenEnv init_state exampleEvents"

definition touchedState :: state where
  "touchedState =
     run tokenEnv init_state (exampleEvents @ [Authenticate 90 90 (Some ''Bearer T1'') None])"

text \<open>
  Further states: \<open>pendingState\<close>, where the login of the first token request is still in
  flight; \<open>failedState\<close>, reached from \<open>cachedState\<close> when the token is presented at time
  200 and the login that follows throws; and \<open>startedState\<close>, where the server without a
  shared secret has begun the login of \<^verbatim>\<open>user:pw\<close>.
\<close>

definition pendingState :: state where
  "pendingState = run tokenEnv init_state [Authenticate 0 0 None (Some ''T1'')]"

definition failedState :: state where
  "failedState =
     loginSettled 2 (Some (UpstreamError ''down''))
       (snd (authenticateHttpRequest tokenEnv 200 200 None (Some ''T1'') cachedState))"

definition startedState :: state where
  "startedState =
     snd (authenticateHttpRequest basicEnv 0 0 (Some ''Basic dXNlcjpwdw=='') None init_state)"

section \<open>Parsing of Basic credentials\<close>

lemma indexOf_ge: "- 1 \<le> indexOf s c"
  by (induction s) (auto simp: Let_def)

lemma indexOf_absent: "indexOf s c = - 1 \<longleftrightarrow> c \<notin> set s"
proof (induction s)
  case Nil
  then show ?case by simp
next
  case (Cons x xs)
  have "- 1 \<le> indexOf xs c" by (rule indexOf_ge)
  with Cons show ?case by (auto simp: Let_def)
qed

lemma indexOf_present: "c \<in> set s \<Longrightarrow> indexOf s c = int (length (takeWhile (\<lambda>x. x \<noteq> c) s))"
proof (induction s)
  case Nil
  then show ?case by simp
next
  case (Cons x xs)
  show ?case
  proof (cases "x = c")
    case True
    then show ?thesis by simp
  next
    case False
    with Cons.prems have "c \<in> set xs" by simp
    with Cons.IH False show ?thesis by (simp add: Let_def)
  qed
qed

lemma substring_prefix: "n \<le> length s \<Longrightarrow> substring s 0 (int n) = take n s"
  by (simp add: substring_def Let_def min_def max_def)

lemma substringFrom_drop: "substringFrom s (int n) = drop n s"
  by (auto simp: substringFrom_def substring_def Let_def min_def max_def)

text \<open>
  Claim C10. For every Authorization header, \<open>parseBasicAuth\<close> looks at the decoded payload
  of the header (the header with its first \<^verbatim>\<open>Basic \<close> removed, base64-decoded): if the payload
  has a colon and the text before its first colon is not empty, the call succeeds with that
  text as email and everything after the first colon as password, the empty password
  included; it throws \<^verbatim>\<open>Invalid Basic Auth format\<close> exactly when the payload has no colon
  or nothing before its first colon.
\<close>

theorem parseBasicAuth_first_colon:
  "parseBasicAuth decode authHeader =
     (let payload = decode (replaceFirst authHeader ''Basic '' []);
          before = takeWhile (\<lambda>x. x \<noteq> CHR '':'') payload;
          after = tl (dropWhile (\<lambda>x. x \<noteq> CHR '':'') payload)
      in if CHR '':'' \<notin> set payload \<or> before = [] then Inl InvalidBasicAuthFormat
         else Inr (before, after))"
proof -
  define payload where "payload = decode (replaceFirst authHeader ''Basic '' [])"
  define n where "n = length (takeWhile (\<lambda>x. x \<noteq> CHR '':'') payload)"
  show ?thesis
  proof (cases "CHR '':'' \<in> set payload")
    case False
    then have "indexOf payload CHR '':'' = - 1" by (simp add: indexOf_absent)
    with False show ?thesis
      by (simp add: parseBasicAuth_def Let_def flip: payload_def)
  next
    case True
    then have idx: "indexOf payload CHR '':'' = int n"
      unfolding n_def by (rule indexOf_present)
    have le: "n \<le> length payload" unfolding n_def by (rule length_takeWhile_le)
    have pre: "substring payload 0 (int n) = takeWhile (\<lambda>x. x \<noteq> CHR '':'') payload"
      using substring_prefix [OF le] unfolding n_def by (simp add: takeWhile_eq_take [symmetric])
    have "int n + 1 = int (Suc n)" by simp
    then have "substringFrom payload (int n + 1) = substringFrom payload (int (Suc n))"
      by (rule arg_cong)
    also have "\<dots> = drop (Suc n) payload" by (rule substringFrom_drop)
    also have "\<dots> = tl (drop n payload)" by (simp add: drop_Suc tl_drop)
    also have "\<dots> = tl (dropWhile (\<lambda>x. x \<noteq> CHR '':'') payload)"
      unfolding n_def by (simp add: dropWhile_eq_drop [symmetric])
    finally have post: "substringFrom payload (int n + 1) = tl (dropWhile (\<lambda>x. x \<noteq> CHR '':'') payload)" .
    from True idx pre post show ?thesis
      by (simp add: parseBasicAuth_def Let_def truthy_def flip: payload_def)
  qed
qed

text \<open>An empty password, a password with a colon, an empty email, and no colon at all.\<close>

theorem parseBasicAuth_first_colon_witness:
  "parseBasicAuth decodeBase64Ascii ''Basic dXNlcjo='' = Inr (''user'', [])
   \<and> parseBasicAuth decodeBase64Ascii ''Basic dXNlcjpwOnc='' = Inr (''user'', ''p:w'')
   \<and> parseBasicAuth decodeBase64Ascii ''Basic OnB3'' = Inl InvalidBasicAuthFormat
   \<and> parseBasicAuth decodeBase64Ascii ''Basic dXNlcg=='' = Inl InvalidBasicAuthFormat"
proof -
  have d1: "decodeBase64Ascii ''dXNlcjo='' = ''user:''" by code_simp
  have d2: "decodeBase64Ascii ''dXNlcjpwOnc='' = ''user:p:w''" by code_simp
  have d3: "decodeBase64Ascii ''OnB3'' = '':pw''" by code_simp
  have d4: "decodeBase64Ascii ''dXNlcg=='' = ''user''" by code_simp
  show ?thesis
    using parseBasicAuth_first_colon [of decodeBase64Ascii "''Basic dXNlcjo=''"]
      parseBasicAuth_first_colon [of decodeBase64Ascii "''Basic dXNlcjpwOnc=''"]
      parseBasicAuth_first_colon [of decodeBase64Ascii "''Basic OnB3''"]
      parseBasicAuth_first_colon [of decodeBase64Ascii "''Basic dXNlcg==''"]
    by (simp add: d1 d2 d3 d4 Let_def)
qed

section \<open>Cache keys\<close>

text \<open>Within one scheme the strings fed to the hash are distinct for distinct inputs: for
  tokens always, for pairs whenever the emails have no colon, as the emails that
  \<open>parseBasicAuth\<close> returns.\<close>

lemma tokenCacheKeyInput_inj: "tokenCacheKeyInput a = tokenCacheKeyInput b \<Longrightarrow> a = b"
  by (simp add: tokenCacheKeyInput_def)

lemma cacheKeyInput_inj:
  assumes "CHR '':'' \<notin> set e1" and "CHR '':'' \<notin> set e2"
    and "cacheKeyInput e1 p1 = cacheKeyInput e2 p2"
  shows "e1 = e2 \<and> p1 = p2"
proof -
  let ?P = "\<lambda>x. x \<noteq> CHR '':''"
  from assms(3) have eq: "e1 @ CHR '':'' # p1 = e2 @ CHR '':'' # p2"
    by (simp add: cacheKeyInput_def)
  have "takeWhile ?P (e1 @ CHR '':'' # p1) = e1"
    using assms(1) by (auto simp: takeWhile_tail)
  moreover have "takeWhile ?P (e2 @ CHR '':'' # p2) = e2"
    using assms(2) by (auto simp: takeWhile_tail)
  ultimately have "e1 = e2" using eq by simp
  with eq show ?thesis by simp
qed

section \<open>The model, step by step\<close>

text \<open>The \<^verbatim>\<open>try\<close>/\<^verbatim>\<open>catch\<close> around a logout swallows whatever it throws; the three ways
  through \<open>checkCache\<close>.\<close>

lemma tryLogout_eq: "tryLogout env c st = (Inr (), st\<lparr>trace := trace st @ [Logout c]\<rparr>)"
  by (simp add: tryLogout_def logout_def split: option.split)

lemma checkCache_miss:
  "map_of (clientCache st) k = None \<Longrightarrow> checkCache env now chk k m st = (Inr None, st)"
  by (simp add: checkCache_def)

lemma checkCache_hit:
  "map_of (clientCache st) k = Some r \<Longrightarrow> isClientValid env chk (heap st r) \<Longrightarrow>
   checkCache env now chk k m st =
     (Inr (Some r),
      st\<lparr>heap := (heap st)(r := (heap st r)\<lparr>lastAccessedAt := now, authMethod := Some m\<rparr>)\<rparr>)"
  by (simp add: checkCache_def)

lemma checkCache_expired:
  "map_of (clientCache st) k = Some r \<Longrightarrow> \<not> isClientValid env chk (heap st r) \<Longrightarrow>
   checkCache env now chk k m st =
     (Inr None,
      st\<lparr>clientCache := AList.delete k (clientCache st),
         trace := trace st @ [Logout (sunsamaClient (heap st r)), CacheDelete k]\<rparr>)"
  by (simp add: checkCache_def tryLogout_eq cacheDelete_def)

lemma checkCache_pending: "authPromises (snd (checkCache env now chk k m st)) = authPromises st"
  by (auto simp: checkCache_def tryLogout_eq cacheDelete_def split: option.splits)

text \<open>Once a request has selected a credential and the credential has a key, both
  authentication paths are \<open>singleFlight\<close> on that key; every other call throws and leaves
  the state as it was.\<close>

lemma selectCredential_token:
  "selectCredential env ah qt = Inr (TokenCredential tok m) \<Longrightarrow> truthyOpt (MCP_AUTH_TOKEN env)"
  by (auto simp: selectCredential_def basicAuthCredential_def
      split: if_splits sum.splits prod.splits)

lemma selectCredential_basic_mode:
  "\<not> truthyOpt (MCP_AUTH_TOKEN env) \<Longrightarrow>
   selectCredential env ah qt = basicAuthCredential env ah"
  by (simp add: selectCredential_def)

lemma authenticateWithToken_singleFlight:
  "cacheKeyOf env (TokenCredential tok m) = Some k \<Longrightarrow>
   authenticateWithToken env now chk tok m st =
     singleFlight env now chk k m (loginPair env (TokenCredential tok m)) st"
  by (auto simp: authenticateWithToken_def singleFlight_def Let_def
      split: if_splits option.splits prod.splits sum.splits)

lemma authenticateBasic_singleFlight:
  "authenticateBasic env now chk em pw st =
     singleFlight env now chk (getCacheKey env em pw) Basic (Some (em, pw)) st"
  by (auto simp: authenticateBasic_def singleFlight_def Let_def
      split: if_splits option.splits prod.splits sum.splits)

lemma authenticate_singleFlight:
  assumes "selectCredential env ah qt = Inr c" and "cacheKeyOf env c = Some k"
  shows "authenticateHttpRequest env now chk ah qt st =
           singleFlight env now chk k (methodOf c) (loginPair env c) st"
proof (cases c)
  case (TokenCredential tok m)
  with assms show ?thesis
    by (simp add: authenticateHttpRequest_def authenticateWithToken_singleFlight del: cacheKeyOf.simps loginPair.simps)
next
  case (BasicCredential em pw)
  with assms show ?thesis
    by (auto simp: authenticateHttpRequest_def authenticateBasic_singleFlight)
qed

lemma authenticate_rejected:
  assumes "selectCredential env ah qt = Inr c" and "cacheKeyOf env c = None"
  shows "authenticateHttpRequest env now chk ah qt st = (Threw InvalidAuthenticationToken, st)"
proof (cases c)
  case (TokenCredential tok m)
  with assms have "truthyOpt (MCP_AUTH_TOKEN env)" by (auto dest: selectCredential_token)
  with assms TokenCredential show ?thesis
    by (auto simp: authenticateHttpRequest_def authenticateWithToken_def split: if_splits)
next
  case (BasicCredential em pw)
  with assms show ?thesis by simp
qed

lemma authenticate_shape:
  "(\<exists>err. authenticateHttpRequest env now chk ah qt st = (Threw err, st)) \<or>
   (\<exists>c k. selectCredential env ah qt = Inr c \<and> cacheKeyOf env c = Some k \<and>
      authenticateHttpRequest env now chk ah qt st =
        singleFlight env now chk k (methodOf c) (loginPair env c) st)"
proof (cases "selectCredential env ah qt")
  case (Inl err)
  then show ?thesis by (simp add: authenticateHttpRequest_def)
next
  case (Inr c)
  show ?thesis
  proof (cases "cacheKeyOf env c")
    case None
    with Inr show ?thesis by (auto dest: authenticate_rejected)
  next
    case (Some k)
    with Inr show ?thesis by (auto dest: authenticate_singleFlight)
  qed
qed

lemma requestKey_Some:
  "requestKey env ah qt = Some k \<longleftrightarrow> (\<exists>c. selectCredential env ah qt = Inr c \<and> cacheKeyOf env c = Some k)"
  by (auto simp: requestKey_def split: sum.splits)

lemma singleFlight_hit:
  assumes "map_of (authPromises st) k = None"
    and "map_of (clientCache st) k = Some r" and "isClientValid env chk (heap st r)"
  shows "singleFlight env now chk k m pair st =
           (Returned r,
            st\<lparr>heap := (heap st)(r := (heap st r)\<lparr>lastAccessedAt := now, authMethod := Some m\<rparr>)\<rparr>)"
  using assms by (simp add: singleFlight_def checkCache_hit)

lemma singleFlight_snd:
  "snd (singleFlight env now chk k m pair st) = st \<or>
   snd (singleFlight env now chk k m pair st) = snd (checkCache env now chk k m st) \<or>
   (\<exists>em pw. snd (singleFlight env now chk k m pair st)
              = snd (startLogin k em pw now m (snd (checkCache env now chk k m st))))"
  by (cases "checkCache env now chk k m st")
     (auto simp: singleFlight_def split: sum.splits option.splits)

text \<open>The two loops over the cache in closed form.\<close>

lemma delete_filter: "AList.delete k al = filter (\<lambda>x. fst x \<noteq> k) al"
  by (induction al) auto

lemma expireEntries_eq:
  "expireEntries env clock i es st =
     (Inr (),
      st\<lparr>clientCache := filter (\<lambda>x. fst x \<notin> fst ` set (expired env clock i (heap st) es)) (clientCache st),
         trace := trace st @ teardown (heap st) (expired env clock i (heap st) es)\<rparr>)"
proof (induction es arbitrary: st i)
  case Nil
  then show ?case by (simp add: teardown_def)
next
  case (Cons e es)
  obtain k r where e: "e = (k, r)" by (cases e)
  show ?case
  proof (cases "isClientValid env (clock i) (heap st r)")
    case True
    with e Cons.IH [of "Suc i" st] show ?thesis by simp
  next
    case False
    let ?st2 = "cacheDelete k (st\<lparr>trace := trace st @ [Logout (sunsamaClient (heap st r))]\<rparr>)"
    let ?ex = "expired env clock (Suc i) (heap st) es"
    have h: "heap ?st2 = heap st" by (simp add: cacheDelete_def)
    have "expireEntries env clock i (e # es) st = expireEntries env clock (Suc i) es ?st2"
      using e False by (simp add: tryLogout_eq)
    also have "\<dots> = (Inr (),
      ?st2\<lparr>clientCache := filter (\<lambda>x. fst x \<notin> fst ` set ?ex) (clientCache ?st2),
         trace := trace ?st2 @ teardown (heap st) ?ex\<rparr>)"
      using Cons.IH [of "Suc i" ?st2] by (simp only: h)
    also have "\<dots> = (Inr (),
      st\<lparr>clientCache := filter (\<lambda>x. fst x \<notin> fst ` set (expired env clock i (heap st) (e # es))) (clientCache st),
         trace := trace st @ teardown (heap st) (expired env clock i (heap st) (e # es))\<rparr>)"
      using e False
      by (auto simp: cacheDelete_def teardown_def delete_filter intro!: filter_cong)
    finally show ?thesis .
  qed
qed

lemma logoutEntries_eq:
  "logoutEntries env es st =
     (Inr (), st\<lparr>trace := trace st @ map (\<lambda>(k, r). Logout (sunsamaClient (heap st r))) es\<rparr>)"
proof (induction es arbitrary: st)
  case Nil
  then show ?case by simp
next
  case (Cons e es)
  obtain k r where e: "e = (k, r)" by (cases e)
  show ?case using e Cons.IH [of "st\<lparr>trace := trace st @ [Logout (sunsamaClient (heap st r))]\<rparr>"]
    by (simp add: tryLogout_eq)
qed

lemma cleanupExpiredClients_eq:
  "cleanupExpiredClients env now clock st =
     (Inr (),
      st\<lparr>clientCache := filter (\<lambda>x. fst x \<notin> fst ` set (expired env clock 0 (heap st) (clientCache st))) (clientCache st),
         trace := trace st @ teardown (heap st) (expired env clock 0 (heap st) (clientCache st))\<rparr>)"
  by (simp add: cleanupExpiredClients_def expireEntries_eq)

lemma cleanupAllClients_eq:
  "cleanupAllClients env st =
     (Inr (),
      st\<lparr>clientCache := [],
         trace := trace st @ map (\<lambda>(k, r). Logout (sunsamaClient (heap st r))) (clientCache st) @ [CacheClear]\<rparr>)"
  by (simp add: cleanupAllClients_def logoutEntries_eq)

lemma run_Nil [simp]: "run env st [] = st"
  by (simp add: run_def)

lemma run_Cons [simp]: "run env st (ev # evs) = run env (step env st ev)  evs"
  by (simp add: run_def)

section \<open>Well-formed states\<close>

text \<open>The initial state is well formed and every event keeps a state well formed, so
  every state the module reaches is.\<close>

lemma wf_heap [simp]: "wellFormed (st\<lparr>heap := h\<rparr>) = wellFormed st"
  by (simp add: wellFormed_def)

lemma wf_trace [simp]: "wellFormed (st\<lparr>trace := t\<rparr>) = wellFormed st"
  by (simp add: wellFormed_def)

lemma wf_init: "wellFormed init_state"
  by (simp add: wellFormed_def init_state_def)

lemma map_of_filter_None: "map_of al k = None \<Longrightarrow> map_of (filter P al) k = None"
  by (induction al) auto

lemma wf_filter:
  assumes "wellFormed st"
  shows "wellFormed (st\<lparr>clientCache := filter P (clientCache st)\<rparr>)"
  using assms unfolding wellFormed_def
  by (auto simp: distinct_map_filter map_of_filter_None)

lemma wf_delete: "wellFormed st \<Longrightarrow> wellFormed (st\<lparr>clientCache := AList.delete k (clientCache st)\<rparr>)"
  by (simp add: delete_filter wf_filter)

lemma wf_clear: "wellFormed st \<Longrightarrow> wellFormed (st\<lparr>clientCache := []\<rparr>)"
  by (simp add: wellFormed_def)

lemma wf_cacheDelete: "wellFormed st \<Longrightarrow> wellFormed (cacheDelete k st)"
  using wf_delete [of st k] by (simp add: cacheDelete_def wellFormed_def)

lemma update_fresh: "k \<notin> fst ` set al \<Longrightarrow> AList.update k v al = al @ [(k, v)]"
  by (induction al) auto

lemma set_update_subset: "set (AList.update k v al) \<subseteq> insert (k, v) (set al)"
  by (induction al) auto

lemma distinct_snd_update:
  "distinct (map snd al) \<Longrightarrow> v \<notin> snd ` set al \<Longrightarrow> distinct (map snd (AList.update k v al))"
proof (induction al)
  case Nil
  then show ?case by simp
next
  case (Cons a al)
  have sub: "snd ` set (AList.update k v al) \<subseteq> insert v (snd ` set al)"
    using set_update_subset [of k v al] by force
  from Cons show ?case
    using sub by (cases a) (auto simp: image_iff)
qed

lemma distinct_snd_key:
  "distinct (map snd al) \<Longrightarrow> (a, v) \<in> set al \<Longrightarrow> (b, v) \<in> set al \<Longrightarrow> a = b"
  by (induction al) (auto simp: image_iff)

lemma wf_startLogin:
  assumes "wellFormed st" and "map_of (authPromises st) k = None"
    and "map_of (clientCache st) k = None"
  shows "wellFormed (snd (startLogin k em pw now m st))"
proof -
  from assms(2) have fresh: "k \<notin> fst ` set (authPromises st)"
    by (simp add: map_of_eq_None_iff)
  have old: "p < next_pid st" if "(k', p) \<in> set (authPromises st)" for k' p
    using assms(1) that unfolding wellFormed_def by fastforce
  show ?thesis
    using assms(1,3) fresh old unfolding wellFormed_def startLogin_def Let_def
    by (auto simp: update_fresh)
qed

lemma wf_loginSettled:
  assumes "wellFormed st"
  shows "wellFormed (loginSettled p failure st)"
proof (cases "promises st p")
  case None
  with assms show ?thesis by (simp add: loginSettled_def)
next
  case (Some pr)
  show ?thesis
  proof (cases pr)
    case (Pending cl)
    let ?k = "c_cacheKey cl"
    let ?ps = "AList.delete ?k (authPromises st)"
    have pend: "promises st p = Some (Pending cl)" using Some Pending by simp
    have d: "distinct (map fst ?ps)"
      using assms by (simp add: wellFormed_def distinct_delete)
    have five: "\<exists>cl'. promises st q = Some (Pending cl') \<and> c_cacheKey cl' = k' \<and> q \<noteq> p"
      if "(k', q) \<in> set ?ps" for k' q
    proof -
      from that have in_old: "(k', q) \<in> set (authPromises st)" and ne: "k' \<noteq> ?k"
        by (auto simp: delete_filter)
      from assms in_old obtain cl' where "promises st q = Some (Pending cl')" "c_cacheKey cl' = k'"
        unfolding wellFormed_def by fastforce
      with ne pend show ?thesis by auto
    qed
    have six: "(c_cacheKey cl', q) \<in> set ?ps"
      if "promises st q = Some (Pending cl')" "q \<noteq> p" for q cl'
    proof -
      from assms that(1) have a: "(c_cacheKey cl', q) \<in> set (authPromises st)"
        unfolding wellFormed_def by blast
      from assms pend have b: "(?k, p) \<in> set (authPromises st)"
        unfolding wellFormed_def by blast
      from assms have dist: "distinct (map fst (authPromises st))" by (simp add: wellFormed_def)
      have "c_cacheKey cl' \<noteq> ?k"
      proof
        assume "c_cacheKey cl' = ?k"
        with a b dist have "q = p" by (metis eq_key_imp_eq_value)
        with that(2) show False by simp
      qed
      with a show ?thesis by (auto simp: delete_filter)
    qed
    have seven: "q < next_pid st" if "promises st q \<noteq> None" for q
      using assms that unfolding wellFormed_def by blast
    have old_keys: "\<forall>k' \<in> fst ` set (authPromises st). map_of (clientCache st) k' = None"
      using assms by (simp add: wellFormed_def)
    have eight: "map_of (clientCache st) k' = None \<and> k' \<noteq> ?k" if "k' \<in> fst ` set ?ps" for k'
    proof -
      from that obtain x where x: "x \<in> set ?ps" "k' = fst x" by blast
      from x(1) have "x \<in> set (authPromises st)" and "fst x \<noteq> ?k"
        by (simp_all add: delete_filter)
      with x(2) have mem: "k' \<in> fst ` set (authPromises st)" and ne: "k' \<noteq> ?k"
        by simp_all
      from old_keys mem have "map_of (clientCache st) k' = None" by (rule bspec)
      then show ?thesis using ne by (rule conjI)
    qed
    have e_fail: "\<forall>k' \<in> fst ` set ?ps. map_of (clientCache st) k' = None"
    proof
      fix k' assume "k' \<in> fst ` set ?ps"
      from eight [OF this] show "map_of (clientCache st) k' = None" ..
    qed
    have pending_part:
      "distinct (map fst ?ps) \<and>
       (\<forall>(k', q) \<in> set ?ps. \<exists>cl'. ((promises st)(p \<mapsto> x)) q = Some (Pending cl') \<and> c_cacheKey cl' = k') \<and>
       (\<forall>q cl'. ((promises st)(p \<mapsto> x)) q = Some (Pending cl') \<longrightarrow> (c_cacheKey cl', q) \<in> set ?ps) \<and>
       (\<forall>q. ((promises st)(p \<mapsto> x)) q \<noteq> None \<longrightarrow> q < next_pid st)"
      if "\<And>cl'. x \<noteq> Pending cl'" for x
      using d five six seven that pend by (auto split: if_splits) 
    show ?thesis
    proof (cases failure)
      case (Some err)
      have "loginSettled p failure st =
              st\<lparr>authPromises := ?ps, promises := (promises st)(p \<mapsto> Rejected err)\<rparr>"
        using pend Some by (simp add: loginSettled_def)
      moreover have "wellFormed (st\<lparr>authPromises := ?ps, promises := (promises st)(p \<mapsto> Rejected err)\<rparr>)"
        using assms pending_part [of "Rejected err"] e_fail unfolding wellFormed_def by simp
      ultimately show ?thesis by simp
    next
      case None
      let ?r = "objects st"
      let ?c = "AList.update ?k ?r (clientCache st)"
      have fresh: "?r \<notin> snd ` set (clientCache st)"
        using assms unfolding wellFormed_def by auto
      have c1: "distinct (map fst ?c)" using assms by (simp add: wellFormed_def distinct_update)
      have c2: "distinct (map snd ?c)" using assms fresh by (simp add: wellFormed_def distinct_snd_update)
      have c3: "\<forall>r \<in> snd ` set ?c. r < ?r + 1"
        using assms set_update_subset [of ?k ?r "clientCache st"] unfolding wellFormed_def by fastforce
      have c4: "\<forall>k' \<in> fst ` set ?ps. map_of ?c k' = None"
      proof
        fix k' assume "k' \<in> fst ` set ?ps"
        from eight [OF this] show "map_of ?c k' = None" by (simp add: update_conv')
      qed
      have "loginSettled p failure st =
              st\<lparr>objects := ?r + 1,
                 heap := (heap st)(?r := \<lparr>sunsamaClient = c_client cl, email = c_email cl,
                                   createdAt = c_now cl, lastAccessedAt = c_now cl,
                                   authMethod = Some (c_authMethod cl)\<rparr>),
                 clientCache := ?c, authPromises := ?ps,
                 promises := (promises st)(p \<mapsto> Fulfilled ?r)\<rparr>"
        using pend None by (simp add: loginSettled_def Let_def)
      moreover have "wellFormed (st\<lparr>objects := ?r + 1, clientCache := ?c, authPromises := ?ps,
                 promises := (promises st)(p \<mapsto> Fulfilled ?r)\<rparr>)"
        using c1 c2 c3 c4 pending_part [of "Fulfilled ?r"] unfolding wellFormed_def by simp
      ultimately show ?thesis by (simp add: wellFormed_def)
    qed
  next
    case (Fulfilled r)
    with assms Some show ?thesis by (simp add: loginSettled_def)
  next
    case (Rejected err)
    with assms Some show ?thesis by (simp add: loginSettled_def)
  qed
qed

lemma wf_checkCache: "wellFormed st \<Longrightarrow> wellFormed (snd (checkCache env now chk k m st))"
  by (auto simp: checkCache_def tryLogout_eq wf_cacheDelete split: option.splits)

lemma checkCache_None:
  assumes "checkCache env now chk k m st = (Inr None, stc)"
  shows "heap stc = heap st \<and> promises stc = promises st \<and> next_pid stc = next_pid st
     \<and> map_of (clientCache stc) k = None
     \<and> (clientCache stc = clientCache st
        \<or> (\<exists>r. map_of (clientCache st) k = Some r \<and> \<not> isClientValid env chk (heap st r)
               \<and> clientCache stc = AList.delete k (clientCache st)))"
  using assms
  by (auto simp: checkCache_def tryLogout_eq cacheDelete_def delete_conv'
      split: option.splits if_splits)

lemma wf_singleFlight:
  assumes "wellFormed st"
  shows "wellFormed (snd (singleFlight env now chk k m pair st))"
proof (cases "map_of (authPromises st) k")
  case (Some p)
  with assms show ?thesis by (simp add: singleFlight_def)
next
  case None
  obtain res st1 where cc: "checkCache env now chk k m st = (res, st1)" by (cases "checkCache env now chk k m st")
  have wf1: "wellFormed st1" using wf_checkCache [OF assms, of env now chk k m] cc by simp
  have "authPromises st1 = authPromises st" using checkCache_pending [of env now chk k m st] cc by simp
  with None have none1: "map_of (authPromises st1) k = None" by simp
  show ?thesis
  proof (cases res)
    case (Inl err)
    with None cc wf1 show ?thesis by (simp add: singleFlight_def)
  next
    case (Inr found)
    show ?thesis
    proof (cases found)
      case (Some r)
      with Inr None cc wf1 show ?thesis by (simp add: singleFlight_def)
    next
      case miss: None
      with Inr cc have "map_of (clientCache st1) k = None" by (simp add: checkCache_None)
      from wf_startLogin [OF wf1 none1 this] miss Inr None cc wf1 show ?thesis
        by (cases pair) (auto simp: singleFlight_def)
    qed
  qed
qed

lemma wf_authenticate:
  assumes "wellFormed st"
  shows "wellFormed (snd (authenticateHttpRequest env now chk ah qt st))"
  using authenticate_shape [of env now chk ah qt st] wf_singleFlight [OF assms] assms
  by auto

lemma wf_cached_not_pending:
  assumes "wellFormed st" and "map_of (clientCache st) k = Some r"
  shows "map_of (authPromises st) k = None"
proof (cases "map_of (authPromises st) k")
  case None
  then show ?thesis .
next
  case (Some p)
  then have "(k, p) \<in> set (authPromises st)" by (rule map_of_SomeD)
  then have mem: "k \<in> fst ` set (authPromises st)" by force
  from assms(1) have "\<forall>k' \<in> fst ` set (authPromises st). map_of (clientCache st) k' = None"
    by (simp add: wellFormed_def)
  from this mem have "map_of (clientCache st) k = None" by (rule bspec)
  with assms(2) show ?thesis by simp
qed

lemma wf_cleanupExpired:
  "wellFormed st \<Longrightarrow> wellFormed (snd (cleanupExpiredClients env now clock st))"
  using wf_filter [of st] by (simp add: cleanupExpiredClients_eq wellFormed_def)

lemma wf_cleanupAll: "wellFormed st \<Longrightarrow> wellFormed (snd (cleanupAllClients env st))"
  using wf_clear [of st] by (simp add: cleanupAllClients_eq wellFormed_def)

lemma wf_step: "wellFormed st \<Longrightarrow> wellFormed (step env st ev)"
  by (cases ev) (simp_all add: wf_authenticate wf_loginSettled wf_cleanupExpired wf_cleanupAll)

lemma wf_run: "wellFormed st \<Longrightarrow> wellFormed (run env st evs)"
  unfolding run_def by (induction evs arbitrary: st) (simp_all add: wf_step)

section \<open>The example run, evaluated\<close>

lemmas model_defs =
  authenticateHttpRequest_def selectCredential_def basicAuthCredential_def
  authenticateWithToken_def authenticateBasic_def checkCache_def startLogin_def
  loginSettled_def parseBearerToken_def validateToken_def timingSafeEqual_def
  getCacheKey_def getTokenCacheKey_def cacheKeyInput_def tokenCacheKeyInput_def
  isClientValid_def tryLogout_eq cacheDelete_def truthy_def startsWith_def
  cleanupExpiredClients_def cleanupAllClients_def

lemma decode_user_pw: "decodeBase64Ascii ''dXNlcjpwdw=='' = ''user:pw''"
  by code_simp

lemma parse_user_pw: "parseBasicAuth decodeBase64Ascii ''Basic dXNlcjpwdw=='' = Inr (''user'', ''pw'')"
  by (simp add: parseBasicAuth_def decode_user_pw Let_def substring_def substringFrom_def truthy_def)

lemma cachedState_eq:
  "cachedState =
     \<lparr>clientCache = [(''token:T1'', 0), (''user:pw'', 1)], authPromises = [],
      heap = (heap init_state)
        (0 := \<lparr>sunsamaClient = 0, email = ''me@example.org'', createdAt = 0,
               lastAccessedAt = 0, authMethod = Some Query\<rparr>,
         1 := \<lparr>sunsamaClient = 1, email = ''user'', createdAt = 10,
               lastAccessedAt = 10, authMethod = Some Basic\<rparr>),
      promises = [0 \<mapsto> Fulfilled 0, 1 \<mapsto> Fulfilled 1],
      clients = 2, objects = 2, next_pid = 2,
      trace = [Login 0 ''me@example.org'' ''secret'', Login 1 ''user'' ''pw'']\<rparr>"
  by (simp add: cachedState_def exampleEvents_def model_defs tokenEnv_def basicEnv_def
      init_state_def parse_user_pw Let_def)

lemma touchedState_eq:
  "touchedState =
     cachedState\<lparr>heap := (heap cachedState)
        (0 := \<lparr>sunsamaClient = 0, email = ''me@example.org'', createdAt = 0,
               lastAccessedAt = 90, authMethod = Some Bearer\<rparr>)\<rparr>"
proof -
  have "touchedState = step tokenEnv cachedState (Authenticate 90 90 (Some ''Bearer T1'') None)"
    by (simp add: touchedState_def cachedState_def run_def)
  then show ?thesis
    by (simp add: cachedState_eq model_defs tokenEnv_def basicEnv_def Let_def)
qed

lemma wf_cachedState: "wellFormed cachedState"
  unfolding cachedState_def by (intro wf_run wf_init)

lemma wf_touchedState: "wellFormed touchedState"
  unfolding touchedState_def by (intro wf_run wf_init)

lemma pendingState_eq:
  "pendingState =
     init_state\<lparr>clients := 1, next_pid := 1,
       promises := [0 \<mapsto> Pending \<lparr>c_cacheKey = ''token:T1'', c_client = 0,
                      c_email = ''me@example.org'', c_now = 0, c_authMethod = Query\<rparr>],
       authPromises := [(''token:T1'', 0)],
       trace := [Login 0 ''me@example.org'' ''secret'']\<rparr>"
  by (simp add: pendingState_def model_defs tokenEnv_def basicEnv_def init_state_def Let_def)

lemma failedState_eq:
  "failedState =
     cachedState\<lparr>clientCache := [(''user:pw'', 1)],
       promises := (promises cachedState)(2 \<mapsto> Rejected (UpstreamError ''down'')),
       clients := 3, next_pid := 3,
       trace := trace cachedState @
         [Logout 0, CacheDelete ''token:T1'', Login 2 ''me@example.org'' ''secret'']\<rparr>"
  by (simp add: failedState_def cachedState_eq model_defs tokenEnv_def basicEnv_def Let_def)

lemma startedState_call:
  "authenticateHttpRequest basicEnv 0 0 (Some ''Basic dXNlcjpwdw=='') None init_state
     = (Awaiting 0, startedState)"
proof -
  have "fst (authenticateHttpRequest basicEnv 0 0 (Some ''Basic dXNlcjpwdw=='') None init_state)
      = Awaiting 0"
    by (simp add: model_defs basicEnv_def init_state_def parse_user_pw Let_def)
  then show ?thesis by (simp add: prod_eq_iff startedState_def)
qed

lemma trim_K1: "trim ''K1'' = ''K1''"
  by (simp add: trim_def isSpace_def)

section \<open>One key for two schemes\<close>

text \<open>
  Claim C1. The token scheme and the Basic scheme do not have disjoint key namespaces: the
  Basic pair with email \<^verbatim>\<open>token\<close> and password \<^verbatim>\<open>T1\<close>, which \<open>parseBasicAuth\<close> returns for
  the header \<^verbatim>\<open>Basic dG9rZW46VDE=\<close>, feeds the hash the same string as the token \<^verbatim>\<open>T1\<close>, so
  both get the same cache key whatever the hash function is. On the token server, once the
  token's client is cached, that Basic header is answered with the token's client, which
  was logged in with the server's own credentials, and no login with the pair is made.
\<close>

theorem token_namespace_collision:
  "parseBasicAuth decodeBase64Ascii ''Basic dG9rZW46VDE='' = Inr (''token'', ''T1'')
   \<and> cacheKeyInput ''token'' ''T1'' = tokenCacheKeyInput ''T1''
   \<and> getCacheKey env ''token'' ''T1'' = getTokenCacheKey env ''T1''
   \<and> fst (authenticateHttpRequest tokenEnv 50 50 (Some ''Basic dG9rZW46VDE='') None cachedState)
       = Returned 0
   \<and> email (heap cachedState 0) = ''me@example.org''
   \<and> logins (snd (authenticateHttpRequest tokenEnv 50 50 (Some ''Basic dG9rZW46VDE='') None cachedState))
       = logins cachedState"
proof -
  have d: "decodeBase64Ascii ''dG9rZW46VDE='' = ''token:T1''" by code_simp
  have parse: "parseBasicAuth decodeBase64Ascii ''Basic dG9rZW46VDE='' = Inr (''token'', ''T1'')"
    by (simp add: parseBasicAuth_def d Let_def substring_def substringFrom_def truthy_def)
  have keys: "cacheKeyInput ''token'' ''T1'' = tokenCacheKeyInput ''T1''
      \<and> getCacheKey env ''token'' ''T1'' = getTokenCacheKey env ''T1''"
    by (simp add: getCacheKey_def getTokenCacheKey_def cacheKeyInput_def tokenCacheKeyInput_def)
  have call: "authenticateHttpRequest tokenEnv 50 50 (Some ''Basic dG9rZW46VDE='') None cachedState
      = (Returned 0,
         cachedState\<lparr>heap := (heap cachedState)
           (0 := (heap cachedState 0)\<lparr>lastAccessedAt := 50, authMethod := Some Basic\<rparr>)\<rparr>)"
    by (simp add: cachedState_eq model_defs tokenEnv_def basicEnv_def parse Let_def)
  have who: "email (heap cachedState 0) = ''me@example.org''"
    by (simp add: cachedState_eq)
  from parse keys who show ?thesis
    by (simp add: call logins_def)
qed

section \<open>Dispatch without a shared secret\<close>

text \<open>
  Claim C7. When no shared-secret token is configured, a request without a Basic header
  (no Authorization header at all, a Bearer header, a query token) makes
  \<open>authenticateHttpRequest\<close> throw \<^verbatim>\<open>Basic Auth required\<close> without touching the state; no
  request is ever handed to the token path; and that error is not the one an invalid
  token gets.
\<close>

theorem basic_auth_required:
  assumes "\<not> truthyOpt (MCP_AUTH_TOKEN env)"
  shows "(\<not> hasPrefix authHeader ''Basic '' \<longrightarrow>
            authenticateHttpRequest env now chk authHeader queryToken st = (Threw BasicAuthRequired, st))
       \<and> (\<forall>token meth. selectCredential env authHeader queryToken \<noteq> Inr (TokenCredential token meth))
       \<and> BasicAuthRequired \<noteq> InvalidAuthenticationToken"
proof -
  have sel: "selectCredential env authHeader queryToken = basicAuthCredential env authHeader"
    using assms by (rule selectCredential_basic_mode)
  have a: "authenticateHttpRequest env now chk authHeader queryToken st = (Threw BasicAuthRequired, st)"
    if "\<not> hasPrefix authHeader ''Basic ''"
    using that by (simp add: authenticateHttpRequest_def sel basicAuthCredential_def)
  have c: "selectCredential env authHeader queryToken \<noteq> Inr (TokenCredential token meth)"
    for token meth
    by (auto simp: sel basicAuthCredential_def split: sum.splits)
  from a c show ?thesis by auto
qed

text \<open>A Bearer header, and a query token, against the server without a shared secret.\<close>

theorem basic_auth_required_witness:
  "\<not> truthyOpt (MCP_AUTH_TOKEN basicEnv)
   \<and> \<not> hasPrefix (Some ''Bearer T1'') ''Basic ''
   \<and> authenticateHttpRequest basicEnv 5 5 (Some ''Bearer T1'') None init_state
       = (Threw BasicAuthRequired, init_state)
   \<and> authenticateHttpRequest basicEnv 5 5 None (Some ''T1'') init_state
       = (Threw BasicAuthRequired, init_state)"
  using basic_auth_required [of basicEnv "Some ''Bearer T1''" 5 5 None init_state]
    basic_auth_required [of basicEnv None 5 5 "Some ''T1''" init_state]
  by (simp add: basicEnv_def startsWith_def)

section \<open>Reuse of a cached client\<close>

text \<open>
  Claim C8. In a well-formed state a key with a cached entry has no login in flight, so a
  call whose key has a cached entry reaches it. The call reads the clock on entry
  (\<open>now\<close>), and \<^verbatim>\<open>isClientValid\<close> reads it again (\<open>chk\<close>) when it judges the entry. If the
  entry is found valid, the call returns that entry's object; afterwards the object's
  \<open>lastAccessedAt\<close> is \<open>now\<close>, the current time as the call has read it, and
  its \<open>authMethod\<close> the method of this request, its \<open>createdAt\<close>, client and email are
  as before, the cache maps the same keys to the same objects, the object of every other
  key is untouched, and neither the pending map, nor a promise, nor the trace (no login, no
  logout) has changed.
\<close>

theorem reuse_frame:
  assumes wf: "wellFormed st"
    and sel: "selectCredential env authHeader queryToken = Inr c"
    and key: "cacheKeyOf env c = Some k"
    and hit: "map_of (clientCache st) k = Some r"
    and valid: "isClientValid env chk (heap st r)"
  shows "let res = fst (authenticateHttpRequest env now chk authHeader queryToken st);
             st' = snd (authenticateHttpRequest env now chk authHeader queryToken st)
         in res = Returned r
            \<and> lastAccessedAt (heap st' r) = now
            \<and> authMethod (heap st' r) = Some (methodOf c)
            \<and> createdAt (heap st' r) = createdAt (heap st r)
            \<and> sunsamaClient (heap st' r) = sunsamaClient (heap st r)
            \<and> email (heap st' r) = email (heap st r)
            \<and> clientCache st' = clientCache st
            \<and> (k' \<noteq> k \<longrightarrow> map_of (clientCache st) k' = Some r' \<longrightarrow> heap st' r' = heap st r')
            \<and> authPromises st' = authPromises st
            \<and> promises st' = promises st
            \<and> trace st' = trace st"
proof -
  let ?st' = "st\<lparr>heap := (heap st)(r := (heap st r)\<lparr>lastAccessedAt := now,
                                                     authMethod := Some (methodOf c)\<rparr>)\<rparr>"
  have idle: "map_of (authPromises st) k = None"
    using wf hit by (rule wf_cached_not_pending)
  have call: "authenticateHttpRequest env now chk authHeader queryToken st = (Returned r, ?st')"
    using authenticate_singleFlight [OF sel key] singleFlight_hit [OF idle hit valid] by simp
  have other: "heap ?st' r' = heap st r'"
    if "k' \<noteq> k" and "map_of (clientCache st) k' = Some r'"
  proof -
    from that(2) have a: "(k', r') \<in> set (clientCache st)" by (rule map_of_SomeD)
    from hit have b: "(k, r) \<in> set (clientCache st)" by (rule map_of_SomeD)
    from wf have "distinct (map snd (clientCache st))" by (simp add: wellFormed_def)
    with a b that(1) have "r' \<noteq> r" by (auto dest: distinct_snd_key)
    then show ?thesis by simp
  qed
  from call other show ?thesis by (simp add: Let_def)
qed

text \<open>The token entry of \<open>cachedState\<close> reused through a Bearer header by a call that
  reads the clock at 50 and whose validity check reads it at 51, next to the entry of
  \<^verbatim>\<open>user:pw\<close>.\<close>

theorem reuse_frame_witness:
  "wellFormed cachedState
   \<and> selectCredential tokenEnv (Some ''Bearer T1'') None = Inr (TokenCredential ''T1'' Bearer)
   \<and> cacheKeyOf tokenEnv (TokenCredential ''T1'' Bearer) = Some ''token:T1''
   \<and> map_of (authPromises cachedState) ''token:T1'' = None
   \<and> map_of (clientCache cachedState) ''token:T1'' = Some 0
   \<and> isClientValid tokenEnv 51 (heap cachedState 0)
   \<and> map_of (clientCache cachedState) ''user:pw'' = Some 1
   \<and> (let res = fst (authenticateHttpRequest tokenEnv 50 51 (Some ''Bearer T1'') None cachedState);
           st' = snd (authenticateHttpRequest tokenEnv 50 51 (Some ''Bearer T1'') None cachedState)
       in res = Returned 0
        \<and> lastAccessedAt (heap st' 0) = 50
        \<and> authMethod (heap st' 0) = Some Bearer
        \<and> createdAt (heap st' 0) = 0
        \<and> clientCache st' = [(''token:T1'', 0), (''user:pw'', 1)]
        \<and> heap st' 1 = heap cachedState 1)"
proof -
  have h2: "selectCredential tokenEnv (Some ''Bearer T1'') None = Inr (TokenCredential ''T1'' Bearer)"
    by (simp add: model_defs tokenEnv_def basicEnv_def)
  have h3: "cacheKeyOf tokenEnv (TokenCredential ''T1'' Bearer) = Some ''token:T1''"
    by (simp add: model_defs tokenEnv_def basicEnv_def)
  have h4: "map_of (authPromises cachedState) ''token:T1'' = None"
    by (simp add: cachedState_eq)
  have h5: "map_of (clientCache cachedState) ''token:T1'' = Some 0"
    by (simp add: cachedState_eq)
  have h6: "isClientValid tokenEnv 51 (heap cachedState 0)"
    by (simp add: cachedState_eq model_defs tokenEnv_def basicEnv_def)
  have h7: "map_of (clientCache cachedState) ''user:pw'' = Some 1"
    by (simp add: cachedState_eq)
  have h8: "clientCache cachedState = [(''token:T1'', 0), (''user:pw'', 1)]"
    and h9: "createdAt (heap cachedState 0) = 0"
    by (simp_all add: cachedState_eq)
  show ?thesis
    using reuse_frame [OF wf_cachedState h2 h3 h5 h6, where now = 50 and k' = "''user:pw''"
        and r' = 1]
      wf_cachedState h2 h3 h4 h5 h6 h7 h8 h9
    by (simp add: Let_def)
qed

section \<open>The expiry sweep\<close>

lemma expired_mem:
  "(k, r) \<in> set (expired env clock i h es) \<longleftrightarrow>
     (\<exists>j < length es. es ! j = (k, r) \<and> \<not> isClientValid env (clock (i + j)) (h r))"
proof (induction es arbitrary: i)
  case Nil
  then show ?case by simp
next
  case (Cons e es)
  obtain k0 r0 where e: "e = (k0, r0)" by (cases e)
  have shift: "(\<exists>j < length (e # es). (e # es) ! j = (k, r)
                  \<and> \<not> isClientValid env (clock (i + j)) (h r))
      \<longleftrightarrow> (e = (k, r) \<and> \<not> isClientValid env (clock i) (h r))
          \<or> (\<exists>j < length es. es ! j = (k, r)
                  \<and> \<not> isClientValid env (clock (Suc i + j)) (h r))"
    (is "?L \<longleftrightarrow> ?A \<or> ?B")
  proof
    assume ?L
    then obtain j where j: "j < length (e # es)" "(e # es) ! j = (k, r)"
      "\<not> isClientValid env (clock (i + j)) (h r)" by blast
    show "?A \<or> ?B"
    proof (cases j)
      case 0
      with j show ?thesis by simp
    next
      case (Suc j')
      with j have "j' < length es" "es ! j' = (k, r)"
        "\<not> isClientValid env (clock (Suc i + j')) (h r)" by simp_all
      then show ?thesis by blast
    qed
  next
    assume "?A \<or> ?B"
    then show ?L
    proof
      assume ?A
      then have "0 < length (e # es)" "(e # es) ! 0 = (k, r)"
        "\<not> isClientValid env (clock (i + 0)) (h r)" by simp_all
      then show ?L by blast
    next
      assume ?B
      then obtain j where "j < length es" "es ! j = (k, r)"
        "\<not> isClientValid env (clock (Suc i + j)) (h r)" by blast
      then have "Suc j < length (e # es)" "(e # es) ! Suc j = (k, r)"
        "\<not> isClientValid env (clock (i + Suc j)) (h r)" by simp_all
      then show ?L by blast
    qed
  qed
  have "(k, r) \<in> set (expired env clock i h (e # es))
      \<longleftrightarrow> (e = (k, r) \<and> \<not> isClientValid env (clock i) (h r))
          \<or> (k, r) \<in> set (expired env clock (Suc i) h es)"
    using e by auto
  with Cons.IH [of "Suc i"] shift show ?case by simp
qed

lemma expired_keys:
  assumes dist: "distinct (map fst es)" and j: "j < length es" and at: "es ! j = (k, r)"
  shows "k \<in> fst ` set (expired env clock i h es)
           \<longleftrightarrow> \<not> isClientValid env (clock (i + j)) (h r)"
proof
  assume "k \<in> fst ` set (expired env clock i h es)"
  then obtain r' where "(k, r') \<in> set (expired env clock i h es)" by force
  then obtain j' where j': "j' < length es" "es ! j' = (k, r')"
    "\<not> isClientValid env (clock (i + j')) (h r')" by (auto simp: expired_mem)
  from j j' at have "map fst es ! j' = map fst es ! j" by simp
  with nth_eq_iff_index_eq [OF dist, of j' j] j j'(1) have "j' = j" by simp
  with j' at show "\<not> isClientValid env (clock (i + j)) (h r)" by simp
next
  assume "\<not> isClientValid env (clock (i + j)) (h r)"
  with j at have "(k, r) \<in> set (expired env clock i h es)" by (auto simp: expired_mem)
  then show "k \<in> fst ` set (expired env clock i h es)" by force
qed

lemma teardown_split:
  "(k, r) \<in> set es \<Longrightarrow>
   \<exists>pre post. teardown h es = pre @ [Logout (sunsamaClient (h r)), CacheDelete k] @ post"
proof (induction es)
  case Nil
  then show ?case by simp
next
  case (Cons e es)
  show ?case
  proof (cases "e = (k, r)")
    case True
    then have "teardown h (e # es) = [] @ [Logout (sunsamaClient (h r)), CacheDelete k] @ teardown h es"
      by (simp add: teardown_def)
    then show ?thesis by blast
  next
    case False
    with Cons obtain pre post where
      "teardown h es = pre @ [Logout (sunsamaClient (h r)), CacheDelete k] @ post" by auto
    then have "teardown h (e # es) =
        (teardown h [e] @ pre) @ [Logout (sunsamaClient (h r)), CacheDelete k] @ post"
      by (simp add: teardown_def)
    then show ?thesis by blast
  qed
qed

lemma valid_earlier:
  "t \<le> fin \<Longrightarrow> isClientValid env fin sd \<Longrightarrow> isClientValid env t sd"
  by (simp add: isClientValid_def)

text \<open>
  Claim C6 says that after a sweep at time \<open>now\<close> the entries expired at \<open>now\<close> are absent
  and the entries valid at \<open>now\<close> remain. The sweep has no time of its own: it judges each
  entry at the reading \<^verbatim>\<open>isClientValid\<close> takes when the loop reaches it. When the clock
  ticks during the sweep of \<open>cachedState\<close>, from 99 at the first entry to 110 at the second,
  the second entry is valid at 99, the time the sweep began, and is removed; the first is
  idle for the full timeout at 110, the time the sweep ended, and remains.
\<close>

theorem sweep_judges_later_counterexample:
  "clientCache cachedState = [(''token:T1'', 0), (''user:pw'', 1)]
   \<and> isClientValid tokenEnv 99 (heap cachedState 1)
   \<and> map_of (clientCache (snd (cleanupExpiredClients tokenEnv 99 tickingClock cachedState)))
        ''user:pw'' = None
   \<and> CLIENT_IDLE_TIMEOUT tokenEnv \<le> 110 - lastAccessedAt (heap cachedState 0)
   \<and> map_of (clientCache (snd (cleanupExpiredClients tokenEnv 99 tickingClock cachedState)))
        ''token:T1'' = Some 0"
  by (simp add: cachedState_eq cleanupExpiredClients_def tryLogout_eq cacheDelete_def
      isClientValid_def tickingClock_def tokenEnv_def basicEnv_def)

text \<open>
  Claim C6, amended. \<open>cleanupExpiredClients\<close> never ends in an error, whatever the logouts
  do, and leaves every \<^verbatim>\<open>SessionData\<close> object as it was. The \<open>i\<close>-th entry of the cache
  is judged at the reading \<open>clock i\<close> taken for it: if it is valid then, it is still there
  afterwards, and if not, it is absent. Hence, for a sweep that begins at \<open>now\<close> and whose
  clock does not go back: an entry whose idle time at \<open>now\<close> has reached
  \<open>CLIENT_IDLE_TIMEOUT\<close> is absent afterwards; an entry whose lifetime at \<open>now\<close> has reached
  \<open>CLIENT_MAX_LIFETIME\<close> is absent afterwards, however recently it was accessed; and an
  entry still valid at a time \<open>fin\<close> not before its reading, such as the end of the sweep,
  is still there. If an entry has been removed, the trace has gained the logout of its
  client followed at once by the removal of its key.
\<close>

theorem sweep_expired:
  assumes wf: "wellFormed st"
  shows "let res = fst (cleanupExpiredClients env now clock st);
             st' = snd (cleanupExpiredClients env now clock st)
         in res = Inr ()
            \<and> heap st' = heap st
            \<and> (i < length (clientCache st) \<longrightarrow> clientCache st ! i = (k, r) \<longrightarrow>
                 (isClientValid env (clock i) (heap st r)
                    \<longrightarrow> map_of (clientCache st') k = Some r)
               \<and> (\<not> isClientValid env (clock i) (heap st r)
                    \<longrightarrow> map_of (clientCache st') k = None)
               \<and> (now \<le> clock i \<longrightarrow>
                    CLIENT_IDLE_TIMEOUT env \<le> now - lastAccessedAt (heap st r)
                    \<longrightarrow> map_of (clientCache st') k = None)
               \<and> (now \<le> clock i \<longrightarrow>
                    CLIENT_MAX_LIFETIME env \<le> now - createdAt (heap st r)
                    \<longrightarrow> map_of (clientCache st') k = None)
               \<and> (clock i \<le> fin \<longrightarrow> isClientValid env fin (heap st r)
                    \<longrightarrow> map_of (clientCache st') k = Some r)
               \<and> (map_of (clientCache st') k = None \<longrightarrow>
                    (\<exists>pre post. trace st' =
                       trace st @ pre @ [Logout (sunsamaClient (heap st r)), CacheDelete k] @ post)))"
proof -
  let ?ex = "expired env clock 0 (heap st) (clientCache st)"
  let ?c' = "filter (\<lambda>x. fst x \<notin> fst ` set ?ex) (clientCache st)"
  let ?st' = "st\<lparr>clientCache := ?c', trace := trace st @ teardown (heap st) ?ex\<rparr>"
  from wf have dist: "distinct (map fst (clientCache st))" by (simp add: wellFormed_def)
  have run: "cleanupExpiredClients env now clock st = (Inr (), ?st')"
    by (rule cleanupExpiredClients_eq)
  have entry: "(isClientValid env (clock i) (heap st r) \<longrightarrow> map_of ?c' k = Some r)
               \<and> (\<not> isClientValid env (clock i) (heap st r) \<longrightarrow> map_of ?c' k = None)
               \<and> (now \<le> clock i \<longrightarrow>
                    CLIENT_IDLE_TIMEOUT env \<le> now - lastAccessedAt (heap st r)
                    \<longrightarrow> map_of ?c' k = None)
               \<and> (now \<le> clock i \<longrightarrow>
                    CLIENT_MAX_LIFETIME env \<le> now - createdAt (heap st r)
                    \<longrightarrow> map_of ?c' k = None)
               \<and> (clock i \<le> fin \<longrightarrow> isClientValid env fin (heap st r)
                    \<longrightarrow> map_of ?c' k = Some r)
               \<and> (map_of ?c' k = None \<longrightarrow>
                    (\<exists>pre post. trace ?st' =
                       trace st @ pre @ [Logout (sunsamaClient (heap st r)), CacheDelete k] @ post))"
    if pos: "i < length (clientCache st)" and at: "clientCache st ! i = (k, r)"
  proof -
    from pos at have in_c: "(k, r) \<in> set (clientCache st)" by (metis nth_mem)
    have keys: "k \<in> fst ` set ?ex \<longleftrightarrow> \<not> isClientValid env (clock i) (heap st r)"
      using expired_keys [OF dist pos at, of env clock 0 "heap st"] by simp
    have gone: "map_of ?c' k = None" if "\<not> isClientValid env (clock i) (heap st r)"
    proof -
      from that keys have ex: "k \<in> fst ` set ?ex" by simp
      have "k \<notin> fst ` set ?c'"
      proof
        assume "k \<in> fst ` set ?c'"
        then obtain x where x: "x \<in> set ?c'" "fst x = k" by auto
        then have "fst x \<notin> fst ` set ?ex" by simp
        with x(2) ex show False by simp
      qed
      then show ?thesis by (simp add: map_of_eq_None_iff)
    qed
    have kept: "map_of ?c' k = Some r" if "isClientValid env (clock i) (heap st r)"
    proof -
      from that keys have "k \<notin> fst ` set ?ex" by simp
      with in_c have "(k, r) \<in> set ?c'" by simp
      moreover from dist have "distinct (map fst ?c')" by (simp add: distinct_map_filter)
      ultimately show ?thesis by simp
    qed
    have logged: "\<exists>pre post. trace ?st' =
        trace st @ pre @ [Logout (sunsamaClient (heap st r)), CacheDelete k] @ post"
      if "map_of ?c' k = None"
    proof -
      from that kept have "\<not> isClientValid env (clock i) (heap st r)" by force
      with pos at have "(k, r) \<in> set ?ex" by (auto simp: expired_mem)
      from teardown_split [OF this, of "heap st"] show ?thesis by simp
    qed
    have idle: "\<not> isClientValid env (clock i) (heap st r)"
      if "now \<le> clock i" "CLIENT_IDLE_TIMEOUT env \<le> now - lastAccessedAt (heap st r)"
      using that by (simp add: isClientValid_def)
    have life: "\<not> isClientValid env (clock i) (heap st r)"
      if "now \<le> clock i" "CLIENT_MAX_LIFETIME env \<le> now - createdAt (heap st r)"
      using that by (simp add: isClientValid_def)
    have later: "isClientValid env (clock i) (heap st r)"
      if "clock i \<le> fin" "isClientValid env fin (heap st r)"
      using that by (rule valid_earlier)
    from gone kept logged idle life later show ?thesis by blast
  qed
  from run entry show ?thesis by (simp add: Let_def)
qed

text \<open>A sweep of \<open>cachedState\<close> under a clock standing at 105 removes the idle token
  entry, whose logout throws, and keeps the entry of \<^verbatim>\<open>user:pw\<close>; a sweep of
  \<open>touchedState\<close> at 160 removes the token entry for its age, 70 ms after its last
  access; and under the ticking clock the second entry, judged at 110, is removed.\<close>

theorem sweep_expired_witness:
  "wellFormed cachedState \<and> wellFormed touchedState
   \<and> clientCache cachedState ! 0 = (''token:T1'', 0)
   \<and> clientCache cachedState ! 1 = (''user:pw'', 1)
   \<and> clientCache touchedState ! 0 = (''token:T1'', 0)
   \<and> CLIENT_IDLE_TIMEOUT tokenEnv \<le> 105 - lastAccessedAt (heap cachedState 0)
   \<and> logout_throws tokenEnv (sunsamaClient (heap cachedState 0)) \<noteq> None
   \<and> fst (cleanupExpiredClients tokenEnv 105 (still 105) cachedState) = Inr ()
   \<and> map_of (clientCache (snd (cleanupExpiredClients tokenEnv 105 (still 105) cachedState)))
        ''token:T1'' = None
   \<and> isClientValid tokenEnv 105 (heap cachedState 1)
   \<and> map_of (clientCache (snd (cleanupExpiredClients tokenEnv 105 (still 105) cachedState)))
        ''user:pw'' = Some 1
   \<and> 160 - lastAccessedAt (heap touchedState 0) < CLIENT_IDLE_TIMEOUT tokenEnv
   \<and> CLIENT_MAX_LIFETIME tokenEnv \<le> 160 - createdAt (heap touchedState 0)
   \<and> map_of (clientCache (snd (cleanupExpiredClients tokenEnv 160 (still 160) touchedState)))
        ''token:T1'' = None
   \<and> \<not> isClientValid tokenEnv (tickingClock 1) (heap cachedState 1)
   \<and> map_of (clientCache (snd (cleanupExpiredClients tokenEnv 99 tickingClock cachedState)))
        ''user:pw'' = None"
proof -
  have len: "0 < length (clientCache cachedState)" "1 < length (clientCache cachedState)"
    "0 < length (clientCache touchedState)"
    and n0: "clientCache cachedState ! 0 = (''token:T1'', 0)"
    and n1: "clientCache cachedState ! 1 = (''user:pw'', 1)"
    and n2: "clientCache touchedState ! 0 = (''token:T1'', 0)"
    by (simp_all add: touchedState_eq cachedState_eq)
  have b: "CLIENT_IDLE_TIMEOUT tokenEnv \<le> 105 - lastAccessedAt (heap cachedState 0)"
    and c: "logout_throws tokenEnv (sunsamaClient (heap cachedState 0)) \<noteq> None"
    and e: "isClientValid tokenEnv 105 (heap cachedState 1)"
    and t: "\<not> isClientValid tokenEnv (tickingClock 1) (heap cachedState 1)"
    by (simp_all add: cachedState_eq tokenEnv_def basicEnv_def isClientValid_def tickingClock_def)
  have g: "160 - lastAccessedAt (heap touchedState 0) < CLIENT_IDLE_TIMEOUT tokenEnv"
    and h: "CLIENT_MAX_LIFETIME tokenEnv \<le> 160 - createdAt (heap touchedState 0)"
    by (simp_all add: touchedState_eq cachedState_eq tokenEnv_def basicEnv_def)
  note s1 = sweep_expired [OF wf_cachedState, where env = tokenEnv and now = 105
      and clock = "still 105" and i = 0 and k = "''token:T1''" and r = 0 and fin = 105]
  note s2 = sweep_expired [OF wf_cachedState, where env = tokenEnv and now = 105
      and clock = "still 105" and i = 1 and k = "''user:pw''" and r = 1 and fin = 105]
  note s3 = sweep_expired [OF wf_touchedState, where env = tokenEnv and now = 160
      and clock = "still 160" and i = 0 and k = "''token:T1''" and r = 0 and fin = 160]
  note s4 = sweep_expired [OF wf_cachedState, where env = tokenEnv and now = 99
      and clock = tickingClock and i = 1 and k = "''user:pw''" and r = 1 and fin = 110]
  from s1 s2 s3 s4 wf_cachedState wf_touchedState len n0 n1 n2 b c e g h t show ?thesis
    by (simp add: Let_def still_def)
qed

section \<open>Order of the two timestamps\<close>

lemma ts_mono: "timestampsOk t st \<Longrightarrow> t \<le> t' \<Longrightarrow> timestampsOk t' st"
  unfolding timestampsOk_def by fastforce

lemma ts_init: "timestampsOk t init_state"
  by (simp add: timestampsOk_def init_state_def)

lemma ts_trace [simp]: "timestampsOk t (st\<lparr>trace := x\<rparr>) = timestampsOk t st"
  by (simp add: timestampsOk_def)

lemma ts_filter:
  "timestampsOk t st \<Longrightarrow> timestampsOk t (st\<lparr>clientCache := filter P (clientCache st)\<rparr>)"
  unfolding timestampsOk_def by auto

lemma ts_cacheDelete: "timestampsOk t st \<Longrightarrow> timestampsOk t (cacheDelete k st)"
  using ts_filter [of t st "\<lambda>x. fst x \<noteq> k"]
  by (simp add: cacheDelete_def delete_filter timestampsOk_def)

lemma ts_touch:
  assumes "timestampsOk t st" and "t \<le> now" and "r \<in> snd ` set (clientCache st)"
  shows "timestampsOk now
           (st\<lparr>heap := (heap st)(r := (heap st r)\<lparr>lastAccessedAt := now, authMethod := m\<rparr>)\<rparr>)"
  using assms unfolding timestampsOk_def by fastforce

lemma ts_checkCache:
  assumes "timestampsOk t st" and "t \<le> now"
  shows "timestampsOk now (snd (checkCache env now chk k m st))"
proof (cases "map_of (clientCache st) k")
  case None
  with assms show ?thesis by (simp add: checkCache_miss ts_mono)
next
  case (Some r)
  then have in_c: "r \<in> snd ` set (clientCache st)" by (force dest: map_of_SomeD)
  show ?thesis
  proof (cases "isClientValid env chk (heap st r)")
    case True
    with Some ts_touch [OF assms in_c] show ?thesis by (simp add: checkCache_hit)
  next
    case False
    have "timestampsOk now (cacheDelete k st)" by (rule ts_cacheDelete [OF ts_mono [OF assms]])
    then have "timestampsOk now (st\<lparr>clientCache := AList.delete k (clientCache st),
         trace := trace st @ [Logout (sunsamaClient (heap st r)), CacheDelete k]\<rparr>)"
      by (simp add: cacheDelete_def timestampsOk_def)
    with Some False show ?thesis by (simp add: checkCache_expired)
  qed
qed

lemma ts_startLogin:
  assumes "timestampsOk now st"
  shows "timestampsOk now (snd (startLogin k em pw now m st))"
  using assms unfolding timestampsOk_def startLogin_def Let_def by auto

lemma ts_singleFlight:
  assumes "timestampsOk t st" and "t \<le> now"
  shows "timestampsOk now (snd (singleFlight env now chk k m pair st))"
proof -
  have a: "timestampsOk now st" using assms by (rule ts_mono)
  have b: "timestampsOk now (snd (checkCache env now chk k m st))" using assms by (rule ts_checkCache)
  have c: "timestampsOk now (snd (startLogin k em pw now m (snd (checkCache env now chk k m st))))"
    for em pw using b by (rule ts_startLogin)
  from singleFlight_snd [of env now chk k m pair st] show ?thesis
  proof (elim disjE exE)
    assume "snd (singleFlight env now chk k m pair st) = st"
    with a show ?thesis by simp
  next
    assume "snd (singleFlight env now chk k m pair st) = snd (checkCache env now chk k m st)"
    with b show ?thesis by simp
  next
    fix em pw
    assume "snd (singleFlight env now chk k m pair st)
              = snd (startLogin k em pw now m (snd (checkCache env now chk k m st)))"
    with c [of em pw] show ?thesis by simp
  qed
qed

lemma ts_authenticate:
  assumes "timestampsOk t st" and "t \<le> now"
  shows "timestampsOk now (snd (authenticateHttpRequest env now chk ah qt st))"
proof -
  from authenticate_shape [of env now chk ah qt st] show ?thesis
  proof (elim disjE exE conjE)
    fix err assume "authenticateHttpRequest env now chk ah qt st = (Threw err, st)"
    with ts_mono [OF assms] show ?thesis by simp
  next
    fix c k
    assume "authenticateHttpRequest env now chk ah qt st =
              singleFlight env now chk k (methodOf c) (loginPair env c) st"
    with ts_singleFlight [OF assms, of env chk k "methodOf c" "loginPair env c"] show ?thesis by simp
  qed
qed

lemma ts_loginSettled:
  assumes wf: "wellFormed st" and ts: "timestampsOk t st"
  shows "timestampsOk t (loginSettled p failure st)"
proof (cases "\<exists>cl. promises st p = Some (Pending cl)")
  case False
  then have "loginSettled p failure st = st"
    by (auto simp: loginSettled_def split: option.splits promise.splits)
  with ts show ?thesis by simp
next
  case True
  then obtain cl where pend: "promises st p = Some (Pending cl)" by blast
  from ts pend have started: "c_now cl \<le> t" unfolding timestampsOk_def by blast
  show ?thesis
  proof (cases failure)
    case (Some err)
    with pend ts show ?thesis
      unfolding timestampsOk_def loginSettled_def by (auto split: if_splits)
  next
    case None
    let ?r = "objects st"
    let ?sd = "\<lparr>sunsamaClient = c_client cl, email = c_email cl, createdAt = c_now cl,
               lastAccessedAt = c_now cl, authMethod = Some (c_authMethod cl)\<rparr>"
    let ?h = "(heap st)(?r := ?sd)"
    let ?c = "AList.update (c_cacheKey cl) ?r (clientCache st)"
    let ?st' = "st\<lparr>objects := ?r + 1, heap := ?h, clientCache := ?c,
                   authPromises := AList.delete (c_cacheKey cl) (authPromises st),
                   promises := (promises st)(p \<mapsto> Fulfilled ?r)\<rparr>"
    have eq: "loginSettled p failure st = ?st'"
      using pend None by (simp add: loginSettled_def Let_def)
    have sub: "snd ` set ?c \<subseteq> insert ?r (snd ` set (clientCache st))"
      using set_update_subset [of "c_cacheKey cl" ?r "clientCache st"] by force
    have entries: "createdAt (?h r) \<le> lastAccessedAt (?h r) \<and> createdAt (?h r) \<le> t"
      if "r \<in> snd ` set ?c" for r
    proof (cases "r = ?r")
      case True
      with started show ?thesis by simp
    next
      case False
      with that sub have "r \<in> snd ` set (clientCache st)" by blast
      with ts have "createdAt (heap st r) \<le> lastAccessedAt (heap st r) \<and> createdAt (heap st r) \<le> t"
        unfolding timestampsOk_def by blast
      with False show ?thesis by simp
    qed
    have flights: "c_now cl' \<le> t" if "((promises st)(p \<mapsto> Fulfilled ?r)) q = Some (Pending cl')" for q cl'
    proof -
      from that have "promises st q = Some (Pending cl')" by (simp split: if_splits)
      with ts show ?thesis unfolding timestampsOk_def by blast
    qed
    have "timestampsOk t ?st'"
      unfolding timestampsOk_def using entries flights by simp
    with eq show ?thesis by simp
  qed
qed

lemma ts_cleanupExpired:
  "timestampsOk t st \<Longrightarrow> timestampsOk t (snd (cleanupExpiredClients env now clock st))"
  using ts_filter [of t st] by (simp add: cleanupExpiredClients_eq timestampsOk_def)

lemma ts_cleanupAll: "timestampsOk t st \<Longrightarrow> timestampsOk t (snd (cleanupAllClients env st))"
  by (simp add: cleanupAllClients_eq timestampsOk_def)

text \<open>
  Claim C9. From a well-formed state whose timestamps are in order up to time \<open>t\<close> (the
  initial state is one, for every \<open>t\<close>), after any sequence of events whose clock readings
  never go back, every entry of the client cache has \<open>createdAt \<le> lastAccessedAt\<close>.
\<close>

theorem timestamps_ordered:
  assumes "wellFormed st" and "timestampsOk t st" and "monotone t evs"
    and "(k, r) \<in> set (clientCache (run env st evs))"
  shows "createdAt (heap (run env st evs) r) \<le> lastAccessedAt (heap (run env st evs) r)"
proof -
  have "\<exists>t'. timestampsOk t' (run env st evs)"
    using assms(1-3)
  proof (induction evs arbitrary: st t)
    case Nil
    then show ?case by auto
  next
    case (Cons ev evs)
    have wf': "wellFormed (step env st ev)" using Cons.prems(1) by (rule wf_step)
    show ?case
    proof (cases ev)
      case (Authenticate now chk ah qt)
      with Cons.prems have "timestampsOk now (step env st ev)" and "monotone now evs"
        by (simp_all add: ts_authenticate)
      with wf' Cons.IH show ?thesis by simp
    next
      case (LoginSettles p failure)
      with Cons.prems have "timestampsOk t (step env st ev)" and "monotone t evs"
        by (simp_all add: ts_loginSettled)
      with wf' Cons.IH show ?thesis by simp
    next
      case (CleanupTick now clock)
      with Cons.prems have "timestampsOk now (step env st ev)" and "monotone now evs"
        by (simp_all add: ts_cleanupExpired ts_mono)
      with wf' Cons.IH show ?thesis by simp
    next
      case Shutdown
      with Cons.prems have "timestampsOk t (step env st ev)" and "monotone t evs"
        by (simp_all add: ts_cleanupAll)
      with wf' Cons.IH show ?thesis by simp
    qed
  qed
  then obtain t' where "timestampsOk t' (run env st evs)" ..
  then have "\<forall>x \<in> snd ` set (clientCache (run env st evs)).
      createdAt (heap (run env st evs) x) \<le> lastAccessedAt (heap (run env st evs) x)"
    by (simp add: timestampsOk_def)
  moreover from assms(4) have "r \<in> snd ` set (clientCache (run env st evs))" by force
  ultimately show ?thesis by blast
qed

text \<open>The run to \<open>touchedState\<close>: the token entry was created at 0 and last accessed
  at 90.\<close>

theorem timestamps_ordered_witness:
  "wellFormed init_state \<and> timestampsOk 0 init_state
   \<and> monotone 0 (exampleEvents @ [Authenticate 90 90 (Some ''Bearer T1'') None])
   \<and> (''token:T1'', 0) \<in> set (clientCache touchedState)
   \<and> createdAt (heap touchedState 0) \<le> lastAccessedAt (heap touchedState 0)
   \<and> createdAt (heap touchedState 0) = 0 \<and> lastAccessedAt (heap touchedState 0) = 90"
proof -
  have m: "monotone 0 (exampleEvents @ [Authenticate 90 90 (Some ''Bearer T1'') None])"
    by (simp add: exampleEvents_def)
  have i: "(''token:T1'', 0) \<in> set (clientCache
      (run tokenEnv init_state (exampleEvents @ [Authenticate 90 90 (Some ''Bearer T1'') None])))"
    unfolding touchedState_def [symmetric] by (simp add: touchedState_eq cachedState_eq)
  have v: "createdAt (heap touchedState 0) = 0 \<and> lastAccessedAt (heap touchedState 0) = 90"
    by (simp add: touchedState_eq)
  show ?thesis
    using timestamps_ordered [OF wf_init ts_init m i] wf_init ts_init [of 0] m i v
    by (simp add: touchedState_def)
qed

section \<open>The pending map\<close>

lemma map_of_delete_same: "map_of (AList.delete k al) k = None"
  by (simp add: delete_conv')

lemma singleFlight_Awaiting:
  assumes "singleFlight env now chk k m pair st = (Awaiting q, st')"
  shows "(map_of (authPromises st) k = Some q \<and> st' = st) \<or>
         (map_of (authPromises st) k = None \<and>
          (\<exists>em pw. startLogin k em pw now m (snd (checkCache env now chk k m st)) = (Awaiting q, st')))"
  using assms
  by (cases "checkCache env now chk k m st")
     (auto simp: singleFlight_def split: option.splits sum.splits)

lemma singleFlight_started:
  assumes "singleFlight env now chk k m pair st = (Awaiting q, st')"
    and "map_of (authPromises st) k = None"
  shows "\<exists>stc em pw. checkCache env now chk k m st = (Inr None, stc)
           \<and> startLogin k em pw now m stc = (Awaiting q, st')"
  using assms
  by (cases "checkCache env now chk k m st")
     (auto simp: singleFlight_def split: option.splits sum.splits)

lemma startLogin_pending:
  "startLogin k em pw now m st = (Awaiting q, st') \<Longrightarrow> \<exists>cl. promises st' q = Some (Pending cl)"
  by (auto simp: startLogin_def Let_def)

lemma startLogin_frame:
  assumes "startLogin k em pw now m st = (Awaiting q, st')"
  shows "clientCache st' = clientCache st" and "heap st' = heap st"
    and "\<exists>cl. promises st' q = Some (Pending cl)"
  using assms by (auto simp: startLogin_def Let_def)

lemma startLogin_effect:
  assumes "map_of (authPromises st) k = None"
  shows "fst (startLogin k em pw now m st) = Awaiting (next_pid st)"
    and "map_of (authPromises (snd (startLogin k em pw now m st))) k = Some (next_pid st)"
    and "trace (snd (startLogin k em pw now m st)) = trace st @ [Login (clients st) em pw]"
    and "clientCache (snd (startLogin k em pw now m st)) = clientCache st"
    and "heap (snd (startLogin k em pw now m st)) = heap st"
    and "objects (snd (startLogin k em pw now m st)) = objects st"
    and "\<exists>cl. promises (snd (startLogin k em pw now m st)) (next_pid st) = Some (Pending cl)"
  by (simp_all add: startLogin_def Let_def update_conv')

lemma wf_pending_entry:
  assumes "wellFormed st" and "map_of (authPromises st) k = Some q"
  shows "\<exists>cl. promises st q = Some (Pending cl) \<and> c_cacheKey cl = k"
proof -
  from assms(2) have "(k, q) \<in> set (authPromises st)" by (rule map_of_SomeD)
  with assms(1) show ?thesis unfolding wellFormed_def by fastforce
qed

lemma wf_in_flight:
  assumes "wellFormed st" and "promises st p = Some (Pending cl)"
  shows "map_of (authPromises st) (c_cacheKey cl) = Some p"
proof -
  from assms have "(c_cacheKey cl, p) \<in> set (authPromises st)" unfolding wellFormed_def by blast
  moreover from assms(1) have "distinct (map fst (authPromises st))" by (simp add: wellFormed_def)
  ultimately show ?thesis by simp
qed

lemma loginSettled_pending:
  assumes "promises st p = Some (Pending cl)"
  shows "map_of (authPromises (loginSettled p failure st)) (c_cacheKey cl) = None"
    and "promises (loginSettled p failure st) p =
           Some (case failure of None \<Rightarrow> Fulfilled (objects st) | Some err \<Rightarrow> Rejected err)"
  using assms by (auto simp: loginSettled_def Let_def map_of_delete_same split: option.splits)

lemma loginSettled_failure:
  assumes "promises st p = Some (Pending cl)"
  shows "promises (loginSettled p (Some err) st) p = Some (Rejected err)"
    and "clientCache (loginSettled p (Some err) st) = clientCache st"
    and "heap (loginSettled p (Some err) st) = heap st"
  using assms by (simp_all add: loginSettled_def)

text \<open>
  Claim C4. In every state the module reaches: a login in flight is registered under its
  key, and when it settles, with success or with failure, that pending entry is gone and
  the promise is settled; every entry of the pending map belongs to a login that has not
  settled; and a call that is made to wait, waits for a login still in flight, never for
  one that has failed.
\<close>

theorem pending_entry_removed:
  "let st = run env init_state evs in
     (promises st p = Some (Pending cl) \<longrightarrow>
        map_of (authPromises st) (c_cacheKey cl) = Some p
      \<and> map_of (authPromises (loginSettled p failure st)) (c_cacheKey cl) = None
      \<and> promises (loginSettled p failure st) p =
           Some (case failure of None \<Rightarrow> Fulfilled (objects st) | Some err \<Rightarrow> Rejected err))
   \<and> (map_of (authPromises st) k = Some q \<longrightarrow>
        (\<exists>cl'. promises st q = Some (Pending cl') \<and> c_cacheKey cl' = k))
   \<and> (authenticateHttpRequest env now chk authHeader queryToken st = (Awaiting q', st') \<longrightarrow>
        (\<exists>cl'. promises st' q' = Some (Pending cl')))"
proof -
  let ?st = "run env init_state evs"
  have wf: "wellFormed ?st" by (intro wf_run wf_init)
  have one: "map_of (authPromises ?st) (c_cacheKey cl) = Some p
      \<and> map_of (authPromises (loginSettled p failure ?st)) (c_cacheKey cl) = None
      \<and> promises (loginSettled p failure ?st) p =
           Some (case failure of None \<Rightarrow> Fulfilled (objects ?st) | Some err \<Rightarrow> Rejected err)"
    if "promises ?st p = Some (Pending cl)"
    using wf_in_flight [OF wf that] loginSettled_pending [OF that] by simp
  have two: "\<exists>cl'. promises ?st q = Some (Pending cl') \<and> c_cacheKey cl' = k"
    if "map_of (authPromises ?st) k = Some q"
    using wf that by (rule wf_pending_entry)
  have three: "\<exists>cl'. promises st' q' = Some (Pending cl')"
    if call: "authenticateHttpRequest env now chk authHeader queryToken ?st = (Awaiting q', st')"
  proof -
    from authenticate_shape [of env now chk authHeader queryToken ?st] call
    obtain c k' where "singleFlight env now chk k' (methodOf c) (loginPair env c) ?st = (Awaiting q', st')"
      by auto
    from singleFlight_Awaiting [OF this] show ?thesis
    proof (elim disjE conjE exE)
      assume "map_of (authPromises ?st) k' = Some q'" and "st' = ?st"
      with wf_pending_entry [OF wf] show ?thesis by blast
    next
      fix em pw
      assume "startLogin k' em pw now (methodOf c) (snd (checkCache env now chk k' (methodOf c) ?st))
                = (Awaiting q', st')"
      then show ?thesis by (rule startLogin_pending)
    qed
  qed
  from one two three show ?thesis by (simp add: Let_def)
qed

text \<open>The login of \<open>pendingState\<close> fails or succeeds: its entry is removed, a Bearer
  request made before that waits for it, and a request made after the failure starts a
  login of its own.\<close>

theorem pending_entry_removed_witness:
  "promises pendingState 0 = Some (Pending \<lparr>c_cacheKey = ''token:T1'', c_client = 0,
                      c_email = ''me@example.org'', c_now = 0, c_authMethod = Query\<rparr>)
   \<and> map_of (authPromises pendingState) ''token:T1'' = Some 0
   \<and> map_of (authPromises (loginSettled 0 (Some (UpstreamError ''down'')) pendingState)) ''token:T1'' = None
   \<and> map_of (authPromises (loginSettled 0 None pendingState)) ''token:T1'' = None
   \<and> promises (loginSettled 0 (Some (UpstreamError ''down'')) pendingState) 0
        = Some (Rejected (UpstreamError ''down''))
   \<and> authenticateHttpRequest tokenEnv 5 5 (Some ''Bearer T1'') None pendingState = (Awaiting 0, pendingState)
   \<and> fst (authenticateHttpRequest tokenEnv 20 20 None (Some ''T1'')
            (loginSettled 0 (Some (UpstreamError ''down'')) pendingState)) = Awaiting 1"
proof -
  let ?cl = "\<lparr>c_cacheKey = ''token:T1'', c_client = 0,
              c_email = ''me@example.org'', c_now = 0, c_authMethod = Query\<rparr>"
  have a: "promises pendingState 0 = Some (Pending ?cl)"
    and b: "map_of (authPromises pendingState) ''token:T1'' = Some 0"
    by (simp_all add: pendingState_eq)
  have c: "authenticateHttpRequest tokenEnv 5 5 (Some ''Bearer T1'') None pendingState = (Awaiting 0, pendingState)"
    by (simp add: pendingState_eq model_defs tokenEnv_def basicEnv_def Let_def)
  have d: "fst (authenticateHttpRequest tokenEnv 20 20 None (Some ''T1'')
            (loginSettled 0 (Some (UpstreamError ''down'')) pendingState)) = Awaiting 1"
    by (simp add: pendingState_eq model_defs tokenEnv_def basicEnv_def init_state_def Let_def)
  have ps: "run tokenEnv init_state [Authenticate 0 0 None (Some ''T1'')] = pendingState"
    by (simp add: pendingState_def)
  note t1 = pending_entry_removed [of tokenEnv "[Authenticate 0 0 None (Some ''T1'')]" 0 ?cl
        "Some (UpstreamError ''down'')" "''token:T1''" 0 5 5 "Some ''Bearer T1''" None 0 pendingState,
        unfolded Let_def ps]
  note t2 = pending_entry_removed [of tokenEnv "[Authenticate 0 0 None (Some ''T1'')]" 0 ?cl
        None "''token:T1''" 0 5 5 "Some ''Bearer T1''" None 0 pendingState, unfolded Let_def ps]
  from t1 t2 a b c d show ?thesis by simp
qed

section \<open>Single flight\<close>

lemma requestLogin_Some:
  "selectCredential env ah qt = Inr c \<Longrightarrow> requestLogin env ah qt = loginPair env c"
  by (simp add: requestLogin_def)

lemma authenticate_pending:
  assumes "requestKey env ah qt = Some k" and "map_of (authPromises st) k = Some p"
  shows "authenticateHttpRequest env now chk ah qt st = (Awaiting p, st)"
proof -
  from assms(1) obtain c where "selectCredential env ah qt = Inr c" "cacheKeyOf env c = Some k"
    by (auto simp: requestKey_Some)
  from authenticate_singleFlight [OF this] assms(2) show ?thesis
    by (simp add: singleFlight_def)
qed

lemma authenticateAll_pending:
  assumes "\<forall>(now, chk, ah, qt) \<in> set reqs. requestKey env ah qt = Some k"
    and "map_of (authPromises st) k = Some p"
  shows "authenticateAll env reqs st = (replicate (length reqs) (Awaiting p), st)"
  using assms(1)
proof (induction reqs)
  case Nil
  then show ?case by simp
next
  case (Cons req reqs)
  obtain now chk ah qt where req: "req = (now, chk, ah, qt)" by (cases req)
  from Cons.prems req have "requestKey env ah qt = Some k" by simp
  from authenticate_pending [OF this assms(2)] Cons req show ?case by simp
qed

lemma authenticate_first:
  assumes key: "requestKey env ah qt = Some k"
    and pair: "requestLogin env ah qt = Some (em, pw)"
    and idle: "map_of (authPromises st) k = None"
    and miss: "map_of (clientCache st) k = None"
  shows "\<exists>m. authenticateHttpRequest env now chk ah qt st = startLogin k em pw now m st"
proof -
  from key obtain c where c: "selectCredential env ah qt = Inr c" "cacheKeyOf env c = Some k"
    by (auto simp: requestKey_Some)
  from pair c(1) have "loginPair env c = Some (em, pw)" by (simp add: requestLogin_Some)
  with authenticate_singleFlight [OF c] idle miss
  have "authenticateHttpRequest env now chk ah qt st = startLogin k em pw now (methodOf c) st"
    by (simp add: singleFlight_def checkCache_miss)
  then show ?thesis ..
qed

lemma authenticateAll_snd:
  "authenticateAll env (req # reqs) st =
     (fst (authenticateHttpRequest env (fst req) (fst (snd req))
             (fst (snd (snd req))) (snd (snd (snd req))) st)
        # fst (authenticateAll env reqs (snd (authenticateHttpRequest env (fst req) (fst (snd req))
                 (fst (snd (snd req))) (snd (snd (snd req))) st))),
      snd (authenticateAll env reqs (snd (authenticateHttpRequest env (fst req) (fst (snd req))
                 (fst (snd (snd req))) (snd (snd (snd req))) st))))"
  by (cases req) (auto split: prod.splits)

text \<open>
  Claim C2. A call whose key has a pending login returns the result of that login and
  leaves the whole state, the client cache included, as it was. Hence, when a first call
  for never-cached credentials is followed by any number of calls for the same key before
  the login settles, all of them await the same promise, exactly one login has been
  started, the cache is untouched, and the promise settles to one value for all.
\<close>

theorem single_flight:
  "(requestKey env authHeader queryToken = Some k \<longrightarrow> map_of (authPromises st) k = Some p \<longrightarrow>
      authenticateHttpRequest env now chk authHeader queryToken st = (Awaiting p, st))
   \<and> (requestKey env authHeader queryToken = Some k \<longrightarrow>
      requestLogin env authHeader queryToken = Some (em, pw) \<longrightarrow>
      (\<forall>(now', chk', ah, qt) \<in> set reqs. requestKey env ah qt = Some k) \<longrightarrow>
      map_of (authPromises st) k = None \<longrightarrow> map_of (clientCache st) k = None \<longrightarrow>
      (let ress = fst (authenticateAll env ((now, chk, authHeader, queryToken) # reqs) st);
           st' = snd (authenticateAll env ((now, chk, authHeader, queryToken) # reqs) st)
       in ress = replicate (Suc (length reqs)) (Awaiting (next_pid st))
          \<and> trace st' = trace st @ [Login (clients st) em pw]
          \<and> logins st' = logins st + 1
          \<and> clientCache st' = clientCache st
          \<and> heap st' = heap st
          \<and> map_of (authPromises st') k = Some (next_pid st)
          \<and> promises (loginSettled (next_pid st) failure st') (next_pid st)
               = Some (case failure of None \<Rightarrow> Fulfilled (objects st) | Some err \<Rightarrow> Rejected err)))"
proof (intro conjI impI)
  assume "requestKey env authHeader queryToken = Some k" and "map_of (authPromises st) k = Some p"
  then show "authenticateHttpRequest env now chk authHeader queryToken st = (Awaiting p, st)"
    by (rule authenticate_pending)
next
  assume key: "requestKey env authHeader queryToken = Some k"
    and pair: "requestLogin env authHeader queryToken = Some (em, pw)"
    and rest: "\<forall>(now', chk', ah, qt) \<in> set reqs. requestKey env ah qt = Some k"
    and idle: "map_of (authPromises st) k = None"
    and miss: "map_of (clientCache st) k = None"
  from authenticate_first [OF key pair idle miss, of now chk]
  obtain m where first: "authenticateHttpRequest env now chk authHeader queryToken st
      = startLogin k em pw now m st" ..
  let ?st1 = "snd (startLogin k em pw now m st)"
  let ?p = "next_pid st"
  note eff = startLogin_effect [OF idle, where em = em and pw = pw and now = now and m = m]
  have others: "authenticateAll env reqs ?st1 = (replicate (length reqs) (Awaiting ?p), ?st1)"
    using rest eff(2) by (rule authenticateAll_pending)
  have all: "authenticateAll env ((now, chk, authHeader, queryToken) # reqs) st
      = (replicate (Suc (length reqs)) (Awaiting ?p), ?st1)"
    by (simp add: authenticateAll_snd first others eff(1))
  from eff(7) obtain cl where "promises ?st1 ?p = Some (Pending cl)" ..
  from loginSettled_pending(2) [OF this, of failure]
  have settled: "promises (loginSettled ?p failure ?st1) ?p
      = Some (case failure of None \<Rightarrow> Fulfilled (objects st) | Some err \<Rightarrow> Rejected err)"
    by (simp add: eff(6) split: option.splits)
  have count: "logins ?st1 = logins st + 1"
    by (simp add: logins_def eff(3))
  show "let ress = fst (authenticateAll env ((now, chk, authHeader, queryToken) # reqs) st);
           st' = snd (authenticateAll env ((now, chk, authHeader, queryToken) # reqs) st)
       in ress = replicate (Suc (length reqs)) (Awaiting (next_pid st))
          \<and> trace st' = trace st @ [Login (clients st) em pw]
          \<and> logins st' = logins st + 1
          \<and> clientCache st' = clientCache st
          \<and> heap st' = heap st
          \<and> map_of (authPromises st') k = Some (next_pid st)
          \<and> promises (loginSettled (next_pid st) failure st') (next_pid st)
               = Some (case failure of None \<Rightarrow> Fulfilled (objects st) | Some err \<Rightarrow> Rejected err)"
    unfolding Let_def all fst_conv snd_conv
    using eff(2-5) count settled by simp
qed

text \<open>Three requests with the token \<^verbatim>\<open>T1\<close>, by query and by header, on the fresh server:
  one login.\<close>

theorem single_flight_witness:
  "requestKey tokenEnv None (Some ''T1'') = Some ''token:T1''
   \<and> requestKey tokenEnv (Some ''Bearer T1'') None = Some ''token:T1''
   \<and> requestLogin tokenEnv None (Some ''T1'') = Some (''me@example.org'', ''secret'')
   \<and> map_of (authPromises init_state) ''token:T1'' = None
   \<and> map_of (clientCache init_state) ''token:T1'' = None
   \<and> fst (authenticateAll tokenEnv
         [(0, 0, None, Some ''T1''), (1, 1, Some ''Bearer T1'', None), (2, 3, None, Some ''T1'')] init_state)
       = [Awaiting 0, Awaiting 0, Awaiting 0]
   \<and> logins (snd (authenticateAll tokenEnv
         [(0, 0, None, Some ''T1''), (1, 1, Some ''Bearer T1'', None), (2, 3, None, Some ''T1'')] init_state))
       = 1
   \<and> map_of (authPromises pendingState) ''token:T1'' = Some 0
   \<and> authenticateHttpRequest tokenEnv 5 5 (Some ''Bearer T1'') None pendingState
       = (Awaiting 0, pendingState)"
proof -
  have a: "requestKey tokenEnv None (Some ''T1'') = Some ''token:T1''"
    and b: "requestKey tokenEnv (Some ''Bearer T1'') None = Some ''token:T1''"
    and c: "requestLogin tokenEnv None (Some ''T1'') = Some (''me@example.org'', ''secret'')"
    by (simp_all add: requestKey_def requestLogin_def model_defs tokenEnv_def basicEnv_def)
  have d: "map_of (authPromises init_state) ''token:T1'' = None"
    and e: "map_of (clientCache init_state) ''token:T1'' = None"
    and f: "logins init_state = 0" and g: "next_pid init_state = 0"
    by (simp_all add: init_state_def logins_def)
  have h: "map_of (authPromises pendingState) ''token:T1'' = Some 0"
    by (simp add: pendingState_eq)
  note t1 = single_flight [where env = tokenEnv and authHeader = "Some ''Bearer T1''"
      and queryToken = None and k = "''token:T1''" and st = pendingState and p = 0 and now = 5 and chk = 5]
  note t2 = single_flight [where env = tokenEnv and authHeader = None
      and queryToken = "Some ''T1''" and k = "''token:T1''" and st = init_state and now = 0
      and chk = 0
      and em = "''me@example.org''" and pw = "''secret''"
      and reqs = "[(1, 1, Some ''Bearer T1'', None), (2, 3, None, Some ''T1'')]"]
  from t1 t2 a b c d e f g h show ?thesis
    by (simp add: Let_def)
qed

section \<open>Failing calls\<close>

text \<open>
  Claim C3 says that a failing call leaves the client cache unmodified. It does not when
  the key has an expired entry: the call logs that client out and deletes the entry before
  it starts the login, and the login's failure does not bring it back. In \<open>cachedState\<close>
  the token entry is 200 ms old at time 200; the call awaits promise 2, the login throws,
  and the entry is gone.
\<close>

theorem failed_call_evicts_counterexample:
  "map_of (clientCache cachedState) ''token:T1'' = Some 0
   \<and> fst (authenticateHttpRequest tokenEnv 200 200 None (Some ''T1'') cachedState) = Awaiting 2
   \<and> promises failedState 2 = Some (Rejected (UpstreamError ''down''))
   \<and> map_of (clientCache failedState) ''token:T1'' = None
   \<and> clientCache failedState \<noteq> clientCache cachedState"
proof -
  have "fst (authenticateHttpRequest tokenEnv 200 200 None (Some ''T1'') cachedState) = Awaiting 2"
    by (simp add: cachedState_eq model_defs tokenEnv_def basicEnv_def Let_def)
  then show ?thesis by (simp add: failedState_eq) (simp add: cachedState_eq)
qed

text \<open>
  Claim C3, amended. A call with a token that does not validate throws
  \<^verbatim>\<open>Invalid authentication token\<close> and leaves the whole state as it was. A login that
  throws rejects its promise, which the caller and every waiter share, with that error and
  leaves the client cache and every cached object as they were. Over a whole call that
  ends in a failed login no entry is created or overwritten: the cache is as before the
  call, or it has lost the expired entry of the call's own key.
\<close>

theorem failure_creates_no_entry:
  "(selectCredential env authHeader queryToken = Inr (TokenCredential token meth) \<longrightarrow>
      \<not> validateToken token (strOf (MCP_AUTH_TOKEN env)) \<longrightarrow>
      authenticateHttpRequest env now chk authHeader queryToken st
        = (Threw InvalidAuthenticationToken, st))
   \<and> (promises st p = Some (Pending cl) \<longrightarrow>
      (let st' = loginSettled p (Some err) st
       in promises st' p = Some (Rejected err)
          \<and> clientCache st' = clientCache st \<and> heap st' = heap st))
   \<and> (wellFormed st \<longrightarrow> requestKey env authHeader queryToken = Some k \<longrightarrow>
      authenticateHttpRequest env now chk authHeader queryToken st = (Awaiting q, st1) \<longrightarrow>
      (let st2 = loginSettled q (Some err) st1
       in promises st2 q = Some (Rejected err)
          \<and> heap st2 = heap st
          \<and> (clientCache st2 = clientCache st
             \<or> (\<exists>r. map_of (clientCache st) k = Some r
                    \<and> \<not> isClientValid env chk (heap st r)
                    \<and> clientCache st2 = AList.delete k (clientCache st)))))"
proof (intro conjI impI)
  assume sel: "selectCredential env authHeader queryToken = Inr (TokenCredential token meth)"
    and bad: "\<not> validateToken token (strOf (MCP_AUTH_TOKEN env))"
  from bad have "cacheKeyOf env (TokenCredential token meth) = None" by simp
  with sel show "authenticateHttpRequest env now chk authHeader queryToken st
        = (Threw InvalidAuthenticationToken, st)"
    by (rule authenticate_rejected)
next
  assume "promises st p = Some (Pending cl)"
  from loginSettled_failure [OF this, of err]
  show "let st' = loginSettled p (Some err) st
       in promises st' p = Some (Rejected err)
          \<and> clientCache st' = clientCache st \<and> heap st' = heap st"
    by (simp add: Let_def)
next
  assume wf: "wellFormed st" and key: "requestKey env authHeader queryToken = Some k"
    and call: "authenticateHttpRequest env now chk authHeader queryToken st = (Awaiting q, st1)"
  from key obtain c where c: "selectCredential env authHeader queryToken = Inr c"
    "cacheKeyOf env c = Some k" by (auto simp: requestKey_Some)
  from authenticate_singleFlight [OF c, of now chk st] call
  have sf: "singleFlight env now chk k (methodOf c) (loginPair env c) st = (Awaiting q, st1)" by simp
  have "\<exists>cl'. promises st1 q = Some (Pending cl') \<and> heap st1 = heap st
      \<and> (clientCache st1 = clientCache st
          \<or> (\<exists>r. map_of (clientCache st) k = Some r
                 \<and> \<not> isClientValid env chk (heap st r)
                 \<and> clientCache st1 = AList.delete k (clientCache st)))"
  proof (cases "map_of (authPromises st) k")
    case (Some q0)
    with sf have "q = q0" "st1 = st" by (simp_all add: singleFlight_def)
    with Some wf_pending_entry [OF wf, of k q0] show ?thesis by auto
  next
    case None
    from singleFlight_started [OF sf None] obtain stc em pw where
      cc: "checkCache env now chk k (methodOf c) st = (Inr None, stc)"
      and sl: "startLogin k em pw now (methodOf c) stc = (Awaiting q, st1)" by blast
    from checkCache_None [OF cc] startLogin_frame [OF sl] show ?thesis by auto
  qed
  then obtain cl' where pend: "promises st1 q = Some (Pending cl')"
    and h: "heap st1 = heap st"
    and cache: "clientCache st1 = clientCache st
          \<or> (\<exists>r. map_of (clientCache st) k = Some r
                 \<and> \<not> isClientValid env chk (heap st r)
                 \<and> clientCache st1 = AList.delete k (clientCache st))" by blast
  from loginSettled_failure [OF pend, of err] h cache
  show "let st2 = loginSettled q (Some err) st1
       in promises st2 q = Some (Rejected err)
          \<and> heap st2 = heap st
          \<and> (clientCache st2 = clientCache st
             \<or> (\<exists>r. map_of (clientCache st) k = Some r
                    \<and> \<not> isClientValid env chk (heap st r)
                    \<and> clientCache st2 = AList.delete k (clientCache st)))"
    by (simp add: Let_def)
qed

text \<open>The Bearer token \<^verbatim>\<open>bad\<close>; the login of \<open>pendingState\<close> failing; and the call that
  leads to \<open>failedState\<close>.\<close>

theorem failure_creates_no_entry_witness:
  "selectCredential tokenEnv (Some ''Bearer bad'') None = Inr (TokenCredential ''bad'' Bearer)
   \<and> \<not> validateToken ''bad'' (strOf (MCP_AUTH_TOKEN tokenEnv))
   \<and> authenticateHttpRequest tokenEnv 50 50 (Some ''Bearer bad'') None cachedState
       = (Threw InvalidAuthenticationToken, cachedState)
   \<and> promises pendingState 0 = Some (Pending \<lparr>c_cacheKey = ''token:T1'', c_client = 0,
                      c_email = ''me@example.org'', c_now = 0, c_authMethod = Query\<rparr>)
   \<and> promises (loginSettled 0 (Some (UpstreamError ''down'')) pendingState) 0
       = Some (Rejected (UpstreamError ''down''))
   \<and> clientCache (loginSettled 0 (Some (UpstreamError ''down'')) pendingState)
       = clientCache pendingState
   \<and> wellFormed cachedState
   \<and> requestKey tokenEnv None (Some ''T1'') = Some ''token:T1''
   \<and> fst (authenticateHttpRequest tokenEnv 200 200 None (Some ''T1'') cachedState) = Awaiting 2
   \<and> promises failedState 2 = Some (Rejected (UpstreamError ''down''))
   \<and> heap failedState = heap cachedState
   \<and> clientCache failedState = AList.delete ''token:T1'' (clientCache cachedState)"
proof -
  let ?cl = "\<lparr>c_cacheKey = ''token:T1'', c_client = 0,
              c_email = ''me@example.org'', c_now = 0, c_authMethod = Query\<rparr>"
  have a: "selectCredential tokenEnv (Some ''Bearer bad'') None = Inr (TokenCredential ''bad'' Bearer)"
    and b: "\<not> validateToken ''bad'' (strOf (MCP_AUTH_TOKEN tokenEnv))"
    and c: "requestKey tokenEnv None (Some ''T1'') = Some ''token:T1''"
    by (simp_all add: requestKey_def model_defs tokenEnv_def basicEnv_def)
  have d: "promises pendingState 0 = Some (Pending ?cl)"
    by (simp add: pendingState_eq)
  have e': "fst (authenticateHttpRequest tokenEnv 200 200 None (Some ''T1'') cachedState) = Awaiting 2"
    by (simp add: cachedState_eq model_defs tokenEnv_def basicEnv_def Let_def)
  then have e: "authenticateHttpRequest tokenEnv 200 200 None (Some ''T1'') cachedState
      = (Awaiting 2, snd (authenticateHttpRequest tokenEnv 200 200 None (Some ''T1'') cachedState))"
    by (simp add: prod_eq_iff)
  have f: "heap failedState = heap cachedState"
    and g: "clientCache failedState = AList.delete ''token:T1'' (clientCache cachedState)"
    by (simp_all add: failedState_eq) (simp add: cachedState_eq)
  note t1 = failure_creates_no_entry [where env = tokenEnv and authHeader = "Some ''Bearer bad''"
      and queryToken = None and token = "''bad''" and meth = Bearer and now = 50 and chk = 50
      and st = cachedState, THEN conjunct1, rule_format, OF a b]
  note t2 = failure_creates_no_entry [where st = pendingState and p = 0 and cl = ?cl
      and err = "UpstreamError ''down''", THEN conjunct2, THEN conjunct1, rule_format, OF d]
  note t3 = failure_creates_no_entry [where env = tokenEnv and authHeader = None
      and queryToken = "Some ''T1''" and k = "''token:T1''" and now = 200 and chk = 200 and st = cachedState
      and q = 2 and err = "UpstreamError ''down''", THEN conjunct2, THEN conjunct2, rule_format,
      OF wf_cachedState c e]
  from t1 t2 t3 a b c d e' f g wf_cachedState show ?thesis
    by (simp add: Let_def failedState_def [symmetric])
qed

section \<open>Where a session's data comes from\<close>

text \<open>
  Claim C5 says that the data of every new session comes from the authenticate path. A
  request that carries the configured API key gets a session whose data is a fixed record:
  \<open>authenticateHttpRequest\<close> is not called, and on this request it would have thrown.
\<close>

theorem api_key_session_counterexample:
  "handlePost apiKeyEnv 0 0 None False True (Some ''K1'') None init_state
     = (NewSession ApiKeyClient, init_state)
   \<and> authenticateHttpRequest apiKeyEnv 0 0 None None init_state
     = (Threw BasicAuthRequired, init_state)"
  by (simp add: handlePost_def newSessionData_def trim_K1 apiKeyEnv_def basicEnv_def
      authenticateHttpRequest_def selectCredential_def basicAuthCredential_def truthy_def)

text \<open>
  Claim C5, amended. A POST request starts a session only as an initialize request
  without session id. If an API key is configured and the request's trimmed
  \<^verbatim>\<open>X-MCP-API-Key\<close> header equals it, the session's data is the fixed API-key record and the
  state of the authentication module is untouched; in every other case the data is what
  \<open>authenticateHttpRequest\<close> returns for the Authorization header (no query token is
  passed), which has not thrown. The dispatcher is a function of the configuration and the
  request alone: it takes no state, and a request it rejects leaves the state untouched.
\<close>

theorem session_data_origin:
  assumes "handlePost env now chk sessionId hasSession isInitialize apiKeyHeaderRaw authHeader st
             = (NewSession sd, st')"
  shows "\<not> truthyOpt sessionId \<and> isInitialize \<and>
         (if truthyOpt (MCP_API_KEY env) \<and> map_option trim apiKeyHeaderRaw = MCP_API_KEY env
          then sd = ApiKeyClient \<and> st' = st
          else \<exists>res. sd = Authenticated res \<and> (\<forall>err. res \<noteq> Threw err)
                 \<and> authenticateHttpRequest env now chk authHeader None st = (res, st'))
       \<and> (selectCredential env authHeader None = Inl rejection \<longrightarrow>
            authenticateHttpRequest env now chk authHeader None st = (Threw rejection, st))"
proof -
  from assms have init: "\<not> truthyOpt sessionId \<and> isInitialize"
    by (auto simp: handlePost_def split: if_splits)
  have pure: "selectCredential env authHeader None = Inl rejection \<longrightarrow>
            authenticateHttpRequest env now chk authHeader None st = (Threw rejection, st)"
    by (simp add: authenticateHttpRequest_def)
  show ?thesis
  proof (cases "truthyOpt (MCP_API_KEY env) \<and> map_option trim apiKeyHeaderRaw = MCP_API_KEY env")
    case True
    then have "newSessionData env now chk apiKeyHeaderRaw authHeader st = (ApiKeyClient, st)"
      by (simp add: newSessionData_def Let_def)
    with assms init True pure show ?thesis by (simp add: handlePost_def)
  next
    case False
    obtain res st1 where call: "authenticateHttpRequest env now chk authHeader None st = (res, st1)"
      by (cases "authenticateHttpRequest env now chk authHeader None st")
    with False have nsd: "newSessionData env now chk apiKeyHeaderRaw authHeader st = (Authenticated res, st1)"
      by (auto simp: newSessionData_def Let_def)
    from assms init nsd have "sd = Authenticated res \<and> st' = st1 \<and> (\<forall>err. res \<noteq> Threw err)"
      by (cases res) (auto simp: handlePost_def)
    with call False init pure show ?thesis by simp
  qed
qed

text \<open>A Basic request to the server without API key, and the API-key request.\<close>

theorem session_data_origin_witness:
  "handlePost basicEnv 0 0 None False True None (Some ''Basic dXNlcjpwdw=='') init_state
     = (NewSession (Authenticated (Awaiting 0)), startedState)
   \<and> \<not> truthyOpt (MCP_API_KEY basicEnv)
   \<and> authenticateHttpRequest basicEnv 0 0 (Some ''Basic dXNlcjpwdw=='') None init_state
     = (Awaiting 0, startedState)
   \<and> handlePost apiKeyEnv 0 0 None False True (Some ''K1'') None init_state
     = (NewSession ApiKeyClient, init_state)
   \<and> truthyOpt (MCP_API_KEY apiKeyEnv) \<and> map_option trim (Some ''K1'') = MCP_API_KEY apiKeyEnv"
proof -
  have d: "\<not> truthyOpt (MCP_API_KEY basicEnv)"
    and e: "truthyOpt (MCP_API_KEY apiKeyEnv) \<and> map_option trim (Some ''K1'') = MCP_API_KEY apiKeyEnv"
    by (simp_all add: basicEnv_def apiKeyEnv_def trim_K1 truthy_def)
  have b: "handlePost basicEnv 0 0 None False True None (Some ''Basic dXNlcjpwdw=='') init_state
     = (NewSession (Authenticated (Awaiting 0)), startedState)"
    using d by (simp add: handlePost_def newSessionData_def startedState_call)
  have c: "handlePost apiKeyEnv 0 0 None False True (Some ''K1'') None init_state
     = (NewSession ApiKeyClient, init_state)"
    using e by (simp add: handlePost_def newSessionData_def)
  from session_data_origin [OF b] session_data_origin [OF c] b c d e startedState_call
  show ?thesis by simp
qed

end
